theory Spec2Isabelle
  imports Complex_Main "HOL-Library.Char_ord" "HOL-Library.List_Lexorder"
begin

section \<open>The retail transaction preprocessing pipeline\<close>

text \<open>
  The repository holds one function, \<^verbatim>\<open>preprocess_transaction_data\<close>, a fixed sequence of
  pandas and scikit-learn calls on one data frame. The embedding follows the function
  statement by statement. The library calls are modelled by what the libraries do with
  their default arguments, which is what the source passes.
\<close>

subsection \<open>Data frames\<close>

text \<open>
  A cell of a data frame. \<open>NA\<close> is the missing value in all its forms (NaN, None, NaT):
  \<^verbatim>\<open>isnull\<close>, \<^verbatim>\<open>dropna\<close> and \<^verbatim>\<open>to_csv\<close> treat them alike, and \<^verbatim>\<open>duplicated\<close> takes two
  missing values for equal. \<open>Str\<close> is a string read from the file, as its UTF-8 bytes (the
  lexicographic order on bytes is Python's order on code points). \<open>Num\<close> is a number
  of an int64 or float64 column, as the rational it denotes (the infinities of float64
  are left out). \<open>Timestamp\<close> is a datetime64 value, in nanoseconds since the epoch.
\<close>

datatype cell = NA | is_Str: Str string | is_Num: Num rat | is_Bool: Bool bool
  | is_Timestamp: Timestamp int

text \<open>
  A data frame: the column names in order, and the rows in order, each row holding one
  cell per column. The row labels (the index) are left out: every call of the source
  works by position, and \<^verbatim>\<open>to_csv(index=False)\<close> does not write them.
\<close>

record table =
  columns :: "string list"
  rows :: "cell list list"

text \<open>
  What \<^verbatim>\<open>read_csv\<close> guarantees of the frame it returns: the column names are distinct
  (it renames repeated header fields) and every row has one cell per column.
\<close>

definition well_formed :: "table \<Rightarrow> bool" where
  "well_formed df \<longleftrightarrow>
     distinct (columns df) \<and> list_all (\<lambda>r. length r = length (columns df)) (rows df)"

fun index_of :: "'a \<Rightarrow> 'a list \<Rightarrow> nat" where
  "index_of x [] = 0"
| "index_of x (y # ys) = (if x = y then 0 else Suc (index_of x ys))"

text \<open>\<^verbatim>\<open>df[name]\<close> for a name that is a column: the values of that column, row by row.\<close>

definition get_column :: "table \<Rightarrow> string \<Rightarrow> cell list" where
  "get_column df name = map (\<lambda>r. r ! index_of name (columns df)) (rows df)"

text \<open>\<^verbatim>\<open>df[name] = values\<close> for a name that is a column and one value per row.\<close>

definition set_column :: "table \<Rightarrow> string \<Rightarrow> cell list \<Rightarrow> table" where
  "set_column df name vs =
     df\<lparr>rows := map (\<lambda>(r, v). r[index_of name (columns df) := v]) (zip (rows df) vs)\<rparr>"

text \<open>The values of the column at position \<open>j\<close>.\<close>

definition column_at :: "table \<Rightarrow> nat \<Rightarrow> cell list" where
  "column_at df j = map (\<lambda>r. r ! j) (rows df)"

subsection \<open>Errors\<close>

datatype error =
    FileNotFoundError string
  | IsADirectoryError
  | ParserError
  | DateParseError string
  | OutOfBoundsDatetime
  | TypeError
  | KeyError string
  | FileExistsError
  | NotADirectoryError

subsection \<open>Step 1: \<^verbatim>\<open>duplicated\<close> and \<^verbatim>\<open>drop_duplicates\<close>\<close>

text \<open>
  \<^verbatim>\<open>df.duplicated()\<close> with the default \<^verbatim>\<open>keep='first'\<close> over all columns: a row is marked
  when an equal row stands before it.
\<close>

fun duplicated_from :: "cell list list \<Rightarrow> cell list list \<Rightarrow> bool list" where
  "duplicated_from seen [] = []"
| "duplicated_from seen (r # rs) = (r \<in> set seen) # duplicated_from (seen @ [r]) rs"

definition duplicated :: "table \<Rightarrow> bool list" where
  "duplicated df = duplicated_from [] (rows df)"

definition drop_duplicates :: "table \<Rightarrow> table" where
  "drop_duplicates df =
     df\<lparr>rows := map snd (filter (\<lambda>(d, r). \<not> d) (zip (duplicated df) (rows df)))\<rparr>"

subsection \<open>Step 2: \<^verbatim>\<open>isnull\<close> and \<^verbatim>\<open>dropna\<close>\<close>

text \<open>\<^verbatim>\<open>df.isnull().sum()\<close>: for each column, the number of missing cells.\<close>

definition isnull_sum :: "table \<Rightarrow> (string \<times> nat) list" where
  "isnull_sum df =
     map (\<lambda>j. (columns df ! j, length (filter (\<lambda>r. r ! j = NA) (rows df))))
       [0..<length (columns df)]"

text \<open>\<^verbatim>\<open>df.dropna()\<close> with the default \<^verbatim>\<open>how='any'\<close>: a row with a missing cell goes.\<close>

definition dropna :: "table \<Rightarrow> table" where
  "dropna df = df\<lparr>rows := filter (\<lambda>r. NA \<notin> set r) (rows df)\<rparr>"

subsection \<open>Step 3: \<^verbatim>\<open>to_datetime\<close>\<close>

text \<open>
  What \<^verbatim>\<open>pd.to_datetime\<close> needs from outside the data frame. The reading of a date string
  is the library's business (and differs between its versions), so it is a parameter:
  \<open>parse_datetime col s\<close> is the timestamp read from the string \<open>s\<close> standing in the
  column \<open>col\<close> (the library may take the format from the other values), or \<open>None\<close>
  when the library cannot read it. \<open>epoch_datetime\<close> is the reading of a number. The
  clock is read for the strings \<^verbatim>\<open>now\<close> and \<^verbatim>\<open>today\<close>.
\<close>

datatype conversion = Converted int | Null | Refused

record pandas_env =
  parse_datetime :: "cell list \<Rightarrow> string \<Rightarrow> int option"
  epoch_datetime :: "rat \<Rightarrow> conversion"
  clock_now :: int
  clock_today :: int

text \<open>The strings that the library's datetime parsers read as the null timestamp NaT.\<close>

definition nat_strings :: "string list" where
  "nat_strings = [''NaT'', ''nat'', ''NAT'', ''nan'', ''NaN'', ''NAN'']"

text \<open>
  One value under \<^verbatim>\<open>pd.to_datetime\<close> with the default \<^verbatim>\<open>errors='raise'\<close>: a missing value
  stays missing; the empty string and the strings of \<open>nat_strings\<close> become NaT without an
  error; \<^verbatim>\<open>now\<close> and \<^verbatim>\<open>today\<close> become the current time; any other string is parsed, and
  the call raises when it cannot be; a boolean raises.
\<close>

fun to_datetime_value :: "pandas_env \<Rightarrow> cell list \<Rightarrow> cell \<Rightarrow> error + cell" where
  "to_datetime_value env col NA = Inr NA"
| "to_datetime_value env col (Str s) =
     (if s = [] \<or> s \<in> set nat_strings then Inr NA
      else if s = ''now'' then Inr (Timestamp (clock_now env))
      else if s = ''today'' then Inr (Timestamp (clock_today env))
      else case parse_datetime env col s of
             None \<Rightarrow> Inl (DateParseError s)
           | Some t \<Rightarrow> Inr (Timestamp t))"
| "to_datetime_value env col (Num q) =
     (case epoch_datetime env q of
        Converted t \<Rightarrow> Inr (Timestamp t)
      | Null \<Rightarrow> Inr NA
      | Refused \<Rightarrow> Inl OutOfBoundsDatetime)"
| "to_datetime_value env col (Bool b) = Inl TypeError"
| "to_datetime_value env col (Timestamp t) = Inr (Timestamp t)"

text \<open>The values are converted in order; the first failure is the error raised.\<close>

fun convert_all :: "('a \<Rightarrow> error + 'b) \<Rightarrow> 'a list \<Rightarrow> error + 'b list" where
  "convert_all f [] = Inr []"
| "convert_all f (x # xs) =
     (case f x of
        Inl e \<Rightarrow> Inl e
      | Inr y \<Rightarrow> (case convert_all f xs of Inl e \<Rightarrow> Inl e | Inr ys \<Rightarrow> Inr (y # ys)))"

definition to_datetime :: "pandas_env \<Rightarrow> cell list \<Rightarrow> error + cell list" where
  "to_datetime env col = convert_all (to_datetime_value env col) col"

text \<open>
  Lines 50-51: \<^verbatim>\<open>if 'TransactionDate' in df.columns: df[...] = pd.to_datetime(df[...])\<close>.
\<close>

definition convert_transaction_date :: "pandas_env \<Rightarrow> table \<Rightarrow> error + table" where
  "convert_transaction_date env df =
     (if ''TransactionDate'' \<in> set (columns df)
      then (case to_datetime env (get_column df ''TransactionDate'') of
              Inl e \<Rightarrow> Inl e
            | Inr vs \<Rightarrow> Inr (set_column df ''TransactionDate'' vs))
      else Inr df)"

subsection \<open>Step 4: \<^verbatim>\<open>rename\<close>\<close>

text \<open>
  Line 54: \<^verbatim>\<open>df.rename(columns={'DiscountApplied(%)': 'DiscountApplied'})\<close>. With the
  default \<^verbatim>\<open>errors='ignore'\<close> a name that is no column is passed over.
\<close>

definition rename_columns :: "table \<Rightarrow> table" where
  "rename_columns df =
     df\<lparr>columns :=
          map (\<lambda>c. if c = ''DiscountApplied(%)'' then ''DiscountApplied'' else c) (columns df)\<rparr>"

subsection \<open>Step 5: \<^verbatim>\<open>drop\<close>\<close>

text \<open>
  \<^verbatim>\<open>df.drop(columns=names)\<close> with the default \<^verbatim>\<open>errors='raise'\<close>: a name that is no column
  raises KeyError; otherwise every column with one of the names goes.
\<close>

definition drop_columns :: "string list \<Rightarrow> table \<Rightarrow> error + table" where
  "drop_columns names df =
     (case filter (\<lambda>c. c \<notin> set (columns df)) names of
        c # _ \<Rightarrow> Inl (KeyError c)
      | [] \<Rightarrow>
          Inr \<lparr>columns = filter (\<lambda>c. c \<notin> set names) (columns df),
               rows = map (\<lambda>r. map snd (filter (\<lambda>(c, v). c \<notin> set names) (zip (columns df) r)))
                        (rows df)\<rparr>)"

definition cols_to_drop :: "string list" where
  "cols_to_drop = [''StoreLocation'', ''ProductID'']"

text \<open>Lines 57-61.\<close>

definition drop_unneeded :: "table \<Rightarrow> error + table" where
  "drop_unneeded df =
     (let existing_cols_to_drop = filter (\<lambda>c. c \<in> set (columns df)) cols_to_drop
      in if existing_cols_to_drop \<noteq> [] then drop_columns existing_cols_to_drop df else Inr df)"

subsection \<open>Step 6: \<^verbatim>\<open>LabelEncoder\<close>\<close>

text \<open>
  \<^verbatim>\<open>LabelEncoder.fit\<close> collects the classes: the distinct values in ascending order
  (\<^verbatim>\<open>sorted(set(values))\<close> for strings, \<^verbatim>\<open>np.unique\<close> for numbers), a missing value last. A
  column that mixes strings with numbers cannot be sorted and raises TypeError.
\<close>

fun str_values :: "cell list \<Rightarrow> string list" where
  "str_values [] = []"
| "str_values (Str s # cs) = s # str_values cs"
| "str_values (_ # cs) = str_values cs"

fun num_values :: "cell list \<Rightarrow> rat list" where
  "num_values [] = []"
| "num_values (Num q # cs) = q # num_values cs"
| "num_values (_ # cs) = num_values cs"

fun bool_values :: "cell list \<Rightarrow> bool list" where
  "bool_values [] = []"
| "bool_values (Bool b # cs) = b # bool_values cs"
| "bool_values (_ # cs) = bool_values cs"

fun time_values :: "cell list \<Rightarrow> int list" where
  "time_values [] = []"
| "time_values (Timestamp t # cs) = t # time_values cs"
| "time_values (_ # cs) = time_values cs"

definition sorted_unique :: "'a::linorder list \<Rightarrow> 'a list" where
  "sorted_unique xs = sort (remdups xs)"

definition label_classes :: "cell list \<Rightarrow> error + cell list" where
  "label_classes col =
     (let present = filter (\<lambda>c. c \<noteq> NA) col;
          missing = (if NA \<in> set col then [NA] else [])
      in if list_all is_Str present
           then Inr (map Str (sorted_unique (str_values present)) @ missing)
         else if list_all is_Num present
           then Inr (map Num (sorted_unique (num_values present)) @ missing)
         else if list_all is_Bool present
           then Inr (map Bool (sorted_unique (bool_values present)) @ missing)
         else if list_all is_Timestamp present
           then Inr (map Timestamp (sorted_unique (time_values present)) @ missing)
         else Inl TypeError)"

text \<open>\<^verbatim>\<open>fit_transform\<close>: every value is replaced by its position among the classes.\<close>

definition fit_transform :: "cell list \<Rightarrow> error + cell list" where
  "fit_transform col =
     (case label_classes col of
        Inl e \<Rightarrow> Inl e
      | Inr classes \<Rightarrow> Inr (map (\<lambda>v. Num (of_nat (index_of v classes))) col))"

text \<open>
  Lines 66-68 and 70-72:
  \<^verbatim>\<open>if name in df.columns: df[name] = LabelEncoder().fit_transform(df[name])\<close>.
\<close>

definition encode_column :: "string \<Rightarrow> table \<Rightarrow> error + table" where
  "encode_column name df =
     (if name \<in> set (columns df)
      then (case fit_transform (get_column df name) of
              Inl e \<Rightarrow> Inl e
            | Inr vs \<Rightarrow> Inr (set_column df name vs))
      else Inr df)"

subsection \<open>The file system\<close>

text \<open>
  A path is the list of its components, as \<^verbatim>\<open>pathlib.Path\<close> holds it (paths are relative: the
  anchor of an absolute path is left out); the empty list is the current directory, which
  always exists. A file that \<^verbatim>\<open>read_csv\<close> can load is identified with the frame it loads;
  \<^verbatim>\<open>to_csv\<close> stores the frame it is given. Links and permissions are left out.
\<close>

type_synonym path = "string list"

datatype node = CsvFile table | OtherFile | Directory

type_synonym filesystem = "path \<Rightarrow> node option"

fun path_str :: "path \<Rightarrow> string" where
  "path_str [] = ''.''"
| "path_str [c] = c"
| "path_str (c # cs) = c @ ''/'' @ path_str cs"

definition parent :: "path \<Rightarrow> path" where
  "parent p = butlast p"

definition node_at :: "filesystem \<Rightarrow> path \<Rightarrow> node option" where
  "node_at fs p = (if p = [] then Some Directory else fs p)"

definition path_exists :: "filesystem \<Rightarrow> path \<Rightarrow> bool" where
  "path_exists fs p \<longleftrightarrow> node_at fs p \<noteq> None"

definition read_csv :: "filesystem \<Rightarrow> path \<Rightarrow> error + table" where
  "read_csv fs p =
     (case node_at fs p of
        None \<Rightarrow> Inl (FileNotFoundError (path_str p))
      | Some Directory \<Rightarrow> Inl IsADirectoryError
      | Some OtherFile \<Rightarrow> Inl ParserError
      | Some (CsvFile df) \<Rightarrow> Inr df)"

text \<open>
  \<^verbatim>\<open>Path.mkdir(parents=True, exist_ok=True)\<close>: an existing directory is left alone,
  anything else at the path raises, and a missing directory is made after its parents.
\<close>

function mkdir_parents :: "filesystem \<Rightarrow> path \<Rightarrow> error + filesystem" where
  "mkdir_parents fs d =
     (case node_at fs d of
        Some Directory \<Rightarrow> Inr fs
      | Some _ \<Rightarrow> Inl FileExistsError
      | None \<Rightarrow>
          (case mkdir_parents fs (parent d) of
             Inl e \<Rightarrow> Inl e
           | Inr fs' \<Rightarrow> Inr (fs'(d \<mapsto> Directory))))"
  by pat_completeness auto
termination
  by (relation "measure (\<lambda>(fs, d). length d)") (auto simp: node_at_def parent_def split: if_splits)

declare mkdir_parents.simps [simp del]

text \<open>\<^verbatim>\<open>df.to_csv(path, index=False)\<close>: the file is created or overwritten.\<close>

definition to_csv :: "filesystem \<Rightarrow> path \<Rightarrow> table \<Rightarrow> error + filesystem" where
  "to_csv fs p df =
     (case node_at fs p of
        Some Directory \<Rightarrow> Inl IsADirectoryError
      | _ \<Rightarrow>
          (case node_at fs (parent p) of
             Some Directory \<Rightarrow> Inr (fs(p \<mapsto> CsvFile df))
           | Some _ \<Rightarrow> Inl NotADirectoryError
           | None \<Rightarrow> Inl (FileNotFoundError (path_str p))))"

subsection \<open>The pipeline\<close>

text \<open>What the verbose mode prints, by content.\<close>

datatype message =
    ReadingFrom path
  | DuplicatesBefore nat
  | MissingBefore "(string \<times> nat) list"

text \<open>
  \<^verbatim>\<open>preprocess_transaction_data(input_path, output_path, verbose)\<close>. The result is the
  returned path or the exception raised, the file system afterwards, and the lines
  printed.
\<close>

definition preprocess_transaction_data ::
  "pandas_env \<Rightarrow> filesystem \<Rightarrow> path \<Rightarrow> path \<Rightarrow> bool
     \<Rightarrow> (error + path) \<times> filesystem \<times> message list" where
  "preprocess_transaction_data env fs input_path output_path verbose =
     (if \<not> path_exists fs input_path
      then (Inl (FileNotFoundError (''File input tidak ditemukan: '' @ path_str input_path)),
            fs, [])
      else
        let out1 = (if verbose then [ReadingFrom input_path] else [])
        in (case read_csv fs input_path of
             Inl e \<Rightarrow> (Inl e, fs, out1)
           | Inr df0 \<Rightarrow>
              (let out2 = out1 @ (if verbose
                                  then [DuplicatesBefore (length (filter id (duplicated df0)))]
                                  else []);
                   df1 = drop_duplicates df0;
                   out3 = out2 @ (if verbose then [MissingBefore (isnull_sum df1)] else []);
                   df2 = dropna df1
               in (case convert_transaction_date env df2 of
                    Inl e \<Rightarrow> (Inl e, fs, out3)
                  | Inr df3 \<Rightarrow>
                      (case drop_unneeded (rename_columns df3) of
                         Inl e \<Rightarrow> (Inl e, fs, out3)
                       | Inr df5 \<Rightarrow>
                           (case encode_column ''PaymentMethod'' df5 of
                              Inl e \<Rightarrow> (Inl e, fs, out3)
                            | Inr df6 \<Rightarrow>
                                (case encode_column ''ProductCategory'' df6 of
                                   Inl e \<Rightarrow> (Inl e, fs, out3)
                                 | Inr df7 \<Rightarrow>
                                     (case mkdir_parents fs (parent output_path) of
                                        Inl e \<Rightarrow> (Inl e, fs, out3)
                                      | Inr fs1 \<Rightarrow>
                                          (case to_csv fs1 output_path df7 of
                                             Inl e \<Rightarrow> (Inl e, fs1, out3)
                                           | Inr fs2 \<Rightarrow> (Inr output_path, fs2, out3))))))))))"

subsection \<open>Notions used in the statements\<close>

text \<open>
  The rows that survive: the frame after lines 41 and 46, that is after
  \<^verbatim>\<open>drop_duplicates\<close> and \<^verbatim>\<open>dropna\<close>, with the columns still as loaded.
\<close>

definition surviving :: "table \<Rightarrow> table" where
  "surviving df = dropna (drop_duplicates df)"

text \<open>The rows that \<^verbatim>\<open>drop_duplicates\<close> keeps, given the rows already seen.\<close>

definition kept_from :: "cell list list \<Rightarrow> cell list list \<Rightarrow> cell list list" where
  "kept_from seen rs = map snd (filter (\<lambda>(d, r). \<not> d) (zip (duplicated_from seen rs) rs))"

text \<open>Every row has one cell per column.\<close>

definition rectangular :: "table \<Rightarrow> bool" where
  "rectangular df \<longleftrightarrow> list_all (\<lambda>r. length r = length (columns df)) (rows df)"

text \<open>The cells of a row that stand in the columns whose names satisfy \<open>P\<close>.\<close>

definition keep_cells :: "(string \<Rightarrow> bool) \<Rightarrow> string list \<Rightarrow> cell list \<Rightarrow> cell list" where
  "keep_cells P cols r = map snd (filter (\<lambda>(c, v). P c) (zip cols r))"

text \<open>Both the date step and the encoding steps rewrite one named column, if present.\<close>

definition rewrites_column :: "string \<Rightarrow> table \<Rightarrow> table \<Rightarrow> bool" where
  "rewrites_column n df df' \<longleftrightarrow>
     (n \<notin> set (columns df) \<and> df' = df) \<or>
     (n \<in> set (columns df) \<and> (\<exists>vs. length vs = length (rows df) \<and> df' = set_column df n vs))"

text \<open>The name of a column after line 54, and the columns that lines 57-61 leave.\<close>

definition new_name :: "string \<Rightarrow> string" where
  "new_name c = (if c = ''DiscountApplied(%)'' then ''DiscountApplied'' else c)"

definition kept :: "string \<Rightarrow> bool" where
  "kept c \<longleftrightarrow> c \<notin> set cols_to_drop"

text \<open>
  Lines 41 to 72 as one function of the loaded frame: what the call hands to \<^verbatim>\<open>to_csv\<close>,
  or the exception raised on the way.
\<close>

definition transform :: "pandas_env \<Rightarrow> table \<Rightarrow> error + table" where
  "transform env df =
     (case convert_transaction_date env (surviving df) of
        Inl e \<Rightarrow> Inl e
      | Inr df3 \<Rightarrow>
          (case drop_unneeded (rename_columns df3) of
             Inl e \<Rightarrow> Inl e
           | Inr df5 \<Rightarrow>
               (case encode_column ''PaymentMethod'' df5 of
                  Inl e \<Rightarrow> Inl e
                | Inr df6 \<Rightarrow> encode_column ''ProductCategory'' df6)))"

text \<open>What a call prints once the input file is read.\<close>

definition progress :: "bool \<Rightarrow> path \<Rightarrow> table \<Rightarrow> message list" where
  "progress verbose input_path df =
     (if verbose
      then [ReadingFrom input_path, DuplicatesBefore (length (filter id (duplicated df))),
            MissingBefore (isnull_sum (drop_duplicates df))]
      else [])"

text \<open>
  A value other than a missing one that \<^verbatim>\<open>to_datetime\<close> reads as the null timestamp.
\<close>

definition null_marker :: "pandas_env \<Rightarrow> cell \<Rightarrow> bool" where
  "null_marker env v =
     (case v of
        Str s \<Rightarrow> s = [] \<or> s \<in> set nat_strings
      | Num q \<Rightarrow> epoch_datetime env q = Null
      | _ \<Rightarrow> False)"


text \<open>
  A small instance for the worked examples: a date parser that knows three dates, and a
  table with a repeated row and a row whose only missing value is its StoreLocation.
\<close>

definition sample_env :: pandas_env where
  "sample_env =
     \<lparr>parse_datetime =
        (\<lambda>col. map_of [(''2024-01-15'', 15), (''2024-01-16'', 16), (''2024-01-17'', 17)]),
      epoch_datetime = (\<lambda>q. Refused), clock_now = 100, clock_today = 90\<rparr>"

definition sample_table :: table where
  "sample_table =
     \<lparr>columns = [''TransactionDate'', ''DiscountApplied(%)'', ''StoreLocation'', ''ProductID'',
                 ''PaymentMethod'', ''ProductCategory'', ''Quantity''],
      rows =
        [[Str ''2024-01-15'', Num 5, Str ''Jakarta'', Str ''P1'', Str ''Cash'', Str ''Books'', Num 2],
         [Str ''2024-01-15'', Num 5, Str ''Jakarta'', Str ''P1'', Str ''Cash'', Str ''Books'', Num 2],
         [Str ''2024-01-16'', Num 10, NA, Str ''P2'', Str ''Card'', Str ''Toys'', Num 1],
         [Str ''2024-01-16'', Num 0, Str ''Medan'', Str ''P3'', Str ''Card'', Str ''Books'', Num 3],
         [Str ''2024-01-17'', Num 7, Str ''Bali'', Str ''P4'', Str ''Cash'', Str ''Apparel'', Num 1]]\<rparr>"

definition sample_clean :: table where
  "sample_clean =
     \<lparr>columns = [''TransactionDate'', ''DiscountApplied'', ''PaymentMethod'', ''ProductCategory'',
                 ''Quantity''],
      rows =
        [[Timestamp 15, Num 5, Num 1, Num 1, Num 2],
         [Timestamp 16, Num 0, Num 0, Num 1, Num 3],
         [Timestamp 17, Num 7, Num 1, Num 0, Num 1]]\<rparr>"

definition sample_fs :: filesystem where
  "sample_fs = Map.empty([''raw.csv''] \<mapsto> CsvFile sample_table)"

definition sample_fs_after :: filesystem where
  "sample_fs_after =
     sample_fs([''output''] \<mapsto> Directory, [''output'', ''clean.csv''] \<mapsto> CsvFile sample_clean)"

text \<open>A table whose second row holds the string \<^verbatim>\<open>NaT\<close> as its date.\<close>

definition nat_table :: table where
  "nat_table =
     \<lparr>columns = [''TransactionDate'', ''Quantity''],
      rows = [[Str ''2024-01-15'', Num 1], [Str ''NaT'', Num 2]]\<rparr>"

definition nat_fs :: filesystem where
  "nat_fs = Map.empty([''raw.csv''] \<mapsto> CsvFile nat_table)"









section \<open>Properties\<close>

lemma kept_from_Nil: "kept_from seen [] = []"
  by (simp add: kept_from_def)

lemma kept_from_Cons:
  "kept_from seen (r # rs) = (if r \<in> set seen then [] else [r]) @ kept_from (seen @ [r]) rs"
  by (simp add: kept_from_def)

lemma set_kept_from: "set (kept_from seen rs) = set rs - set seen"
  by (induction rs arbitrary: seen) (auto simp: kept_from_Nil kept_from_Cons)

lemma distinct_kept_from: "distinct (kept_from seen rs)"
  by (induction rs arbitrary: seen) (auto simp: kept_from_Nil kept_from_Cons set_kept_from)

lemma kept_from_nths:
  "kept_from seen rs = nths rs {i. rs ! i \<notin> set seen \<union> set (take i rs)}"
proof (induction rs arbitrary: seen)
  case Nil
  show ?case by (simp add: kept_from_Nil)
next
  case (Cons r rs)
  have "{j. Suc j \<in> {i. (r # rs) ! i \<notin> set seen \<union> set (take i (r # rs))}}
        = {i. rs ! i \<notin> set (seen @ [r]) \<union> set (take i rs)}"
    by auto
  then show ?case
    by (simp add: kept_from_Cons nths_Cons Cons.IH)
qed

lemma rows_drop_duplicates: "rows (drop_duplicates df) = kept_from [] (rows df)"
  by (simp add: drop_duplicates_def duplicated_def kept_from_def)

lemma columns_drop_duplicates: "columns (drop_duplicates df) = columns df"
  by (simp add: drop_duplicates_def)

lemma rows_surviving:
  "rows (surviving df) = filter (\<lambda>r. NA \<notin> set r) (kept_from [] (rows df))"
  by (simp add: surviving_def dropna_def rows_drop_duplicates)

lemma columns_surviving: "columns (surviving df) = columns df"
  by (simp add: surviving_def dropna_def columns_drop_duplicates)

lemma distinct_rows_surviving: "distinct (rows (surviving df))"
  by (simp add: rows_surviving distinct_kept_from)

lemma set_rows_surviving: "set (rows (surviving df)) = {r \<in> set (rows df). NA \<notin> set r}"
  by (auto simp: rows_surviving set_kept_from)

lemma convert_all_length: "convert_all f xs = Inr ys \<Longrightarrow> length ys = length xs"
  by (induction xs arbitrary: ys) (auto split: sum.splits)

lemma convert_all_nth:
  "convert_all f xs = Inr ys \<Longrightarrow> k < length xs \<Longrightarrow> f (xs ! k) = Inr (ys ! k)"
proof (induction xs arbitrary: ys k)
  case Nil
  then show ?case by simp
next
  case (Cons x xs)
  then show ?case by (cases k) (auto split: sum.splits)
qed



lemma index_of_less: "x \<in> set xs \<Longrightarrow> index_of x xs < length xs"
  by (induction xs) auto

lemma nth_index_of: "x \<in> set xs \<Longrightarrow> xs ! index_of x xs = x"
  by (induction xs) auto

lemma index_of_nth_distinct: "distinct xs \<Longrightarrow> j < length xs \<Longrightarrow> index_of (xs ! j) xs = j"
proof (induction xs arbitrary: j)
  case Nil
  then show ?case by simp
next
  case (Cons a xs)
  then show ?case by (cases j) auto
qed

lemma index_of_map:
  "(\<And>y. y \<in> set xs \<Longrightarrow> (f y = x) = (y = x)) \<Longrightarrow> index_of x (map f xs) = index_of x xs"
proof (induction xs)
  case Nil
  show ?case by simp
next
  case (Cons a xs)
  have "(f a = x) = (a = x)" using Cons.prems[of a] by simp
  moreover have "index_of x (map f xs) = index_of x xs"
    by (rule Cons.IH) (simp add: Cons.prems)
  ultimately show ?case by auto
qed

lemma index_of_filter:
  "x \<in> set xs \<Longrightarrow> P x \<Longrightarrow>
     index_of x (filter P xs) = length (filter P (take (index_of x xs) xs))"
  by (induction xs) auto

lemma keep_cells_Cons:
  "keep_cells P (c # cols) (v # r) = (if P c then [v] else []) @ keep_cells P cols r"
  by (simp add: keep_cells_def)

lemma length_keep_cells:
  "length r = length cols \<Longrightarrow> length (keep_cells P cols r) = length (filter P cols)"
proof (induction cols arbitrary: r)
  case Nil
  then show ?case by (simp add: keep_cells_def)
next
  case (Cons c cols)
  then obtain v r' where "r = v # r'" by (cases r) auto
  with Cons show ?case by (simp add: keep_cells_Cons)
qed

lemma zip_keep_cells:
  "length r = length cols \<Longrightarrow>
     zip (filter P cols) (keep_cells P cols r) = filter (\<lambda>(c, v). P c) (zip cols r)"
proof (induction cols arbitrary: r)
  case Nil
  then show ?case by (simp add: keep_cells_def)
next
  case (Cons c cols)
  then obtain v r' where "r = v # r'" by (cases r) auto
  with Cons show ?case by (simp add: keep_cells_Cons)
qed

lemma filter_take_less:
  "i < length xs \<Longrightarrow> P (xs ! i) \<Longrightarrow> length (filter P (take i xs)) < length (filter P xs)"
proof (induction xs arbitrary: i)
  case Nil
  then show ?case by simp
next
  case (Cons a xs)
  then show ?case by (cases i) auto
qed

lemma filter_take_nth:
  "i < length xs \<Longrightarrow> P (xs ! i) \<Longrightarrow> filter P xs ! length (filter P (take i xs)) = xs ! i"
proof (induction xs arbitrary: i)
  case Nil
  then show ?case by simp
next
  case (Cons a xs)
  then show ?case by (cases i) auto
qed

lemma keep_cells_nth:
  "length r = length cols \<Longrightarrow> i < length cols \<Longrightarrow> P (cols ! i) \<Longrightarrow>
     keep_cells P cols r ! length (filter P (take i cols)) = r ! i"
proof (induction cols arbitrary: r i)
  case Nil
  then show ?case by simp
next
  case (Cons c cols)
  then obtain v r' where r: "r = v # r'" by (cases r) auto
  show ?case
  proof (cases i)
    case 0
    with Cons.prems r show ?thesis by (simp add: keep_cells_Cons)
  next
    case (Suc i')
    with Cons.prems r have "keep_cells P cols r' ! length (filter P (take i' cols)) = r' ! i'"
      by (intro Cons.IH) auto
    with Suc r show ?thesis by (simp add: keep_cells_Cons)
  qed
qed

lemma in_zip_update:
  assumes "(c, x) \<in> set (zip cols (r[i := v]))"
  shows "(c, x) \<in> set (zip cols r) \<or> (x = v \<and> i < length cols \<and> c = cols ! i)"
proof -
  from assms obtain n where n: "cols ! n = c" "r[i := v] ! n = x" "n < length cols" "n < length r"
    by (auto simp: in_set_zip)
  show ?thesis
  proof (cases "n = i")
    case True
    with n show ?thesis by simp
  next
    case False
    with n have "r ! n = x" by simp
    with n have "(c, x) \<in> set (zip cols r)"
      unfolding in_set_zip by (intro exI[of _ n]) simp
    then show ?thesis by simp
  qed
qed

lemma in_zip_update_other:
  assumes "(c, x) \<in> set (zip cols (r[index_of n cols := v]))" "c \<noteq> n" "n \<in> set cols"
  shows "(c, x) \<in> set (zip cols r)"
proof -
  from in_zip_update[OF assms(1)] assms(2) nth_index_of[OF assms(3)]
  show ?thesis by auto
qed

lemma in_zip_map:
  "(c, x) \<in> set (zip (map f cols) r) \<Longrightarrow> \<exists>c0. f c0 = c \<and> (c0, x) \<in> set (zip cols r)"
  by (auto simp: zip_map1)

lemma columns_set_column: "columns (set_column df n vs) = columns df"
  by (simp add: set_column_def)

lemma length_rows_set_column:
  "length vs = length (rows df) \<Longrightarrow> length (rows (set_column df n vs)) = length (rows df)"
  by (simp add: set_column_def)

lemma rows_set_column_nth:
  "length vs = length (rows df) \<Longrightarrow> k < length (rows df) \<Longrightarrow>
     rows (set_column df n vs) ! k = (rows df ! k)[index_of n (columns df) := vs ! k]"
  by (simp add: set_column_def)

lemma rectangular_set_column: "rectangular df \<Longrightarrow> rectangular (set_column df n vs)"
  by (auto simp: rectangular_def set_column_def list_all_iff dest: set_zip_leftD)

lemma get_column_at: "get_column df n = column_at df (index_of n (columns df))"
  by (simp add: get_column_def column_at_def)

lemma length_column_at: "length (column_at df j) = length (rows df)"
  by (simp add: column_at_def)

lemma column_at_set_column_other:
  assumes "length vs = length (rows df)" "j \<noteq> index_of n (columns df)"
  shows "column_at (set_column df n vs) j = column_at df j"
proof (rule nth_equalityI)
  show "length (column_at (set_column df n vs) j) = length (column_at df j)"
    using assms by (simp add: length_column_at length_rows_set_column)
next
  fix k assume "k < length (column_at (set_column df n vs) j)"
  then have k: "k < length (rows df)"
    using assms by (simp add: length_column_at length_rows_set_column)
  then show "column_at (set_column df n vs) j ! k = column_at df j ! k"
    using assms by (simp add: column_at_def length_rows_set_column rows_set_column_nth)
qed

lemma column_at_set_column_same:
  assumes "length vs = length (rows df)" "rectangular df" "n \<in> set (columns df)"
  shows "column_at (set_column df n vs) (index_of n (columns df)) = vs"
proof (rule nth_equalityI)
  show "length (column_at (set_column df n vs) (index_of n (columns df))) = length vs"
    using assms by (simp add: length_column_at length_rows_set_column)
next
  fix k assume "k < length (column_at (set_column df n vs) (index_of n (columns df)))"
  then have k: "k < length (rows df)"
    using assms by (simp add: length_column_at length_rows_set_column)
  then have "length (rows df ! k) = length (columns df)"
    using assms(2) by (simp add: rectangular_def list_all_length)
  then have "index_of n (columns df) < length (rows df ! k)"
    using assms(3) by (simp add: index_of_less)
  then show "column_at (set_column df n vs) (index_of n (columns df)) ! k = vs ! k"
    using assms k by (simp add: column_at_def length_rows_set_column rows_set_column_nth)
qed

lemma rewrites_columns: "rewrites_column n df df' \<Longrightarrow> columns df' = columns df"
  by (auto simp: rewrites_column_def columns_set_column)

lemma rewrites_length: "rewrites_column n df df' \<Longrightarrow> length (rows df') = length (rows df)"
  by (auto simp: rewrites_column_def length_rows_set_column)

lemma rewrites_rectangular: "rewrites_column n df df' \<Longrightarrow> rectangular df \<Longrightarrow> rectangular df'"
  by (auto simp: rewrites_column_def rectangular_set_column)

lemma rewrites_column_at:
  "rewrites_column n df df' \<Longrightarrow> j < length (columns df) \<Longrightarrow> columns df ! j \<noteq> n \<Longrightarrow>
     column_at df' j = column_at df j"
  by (auto simp: rewrites_column_def nth_index_of intro!: column_at_set_column_other)

lemma rewrites_get_column:
  "rewrites_column n df df' \<Longrightarrow> m \<in> set (columns df) \<Longrightarrow> m \<noteq> n \<Longrightarrow> get_column df' m = get_column df m"
  by (simp add: get_column_at rewrites_columns rewrites_column_at index_of_less nth_index_of)

lemma rewrites_cells:
  assumes "rewrites_column n df df'" "k < length (rows df)"
    "(c, x) \<in> set (zip (columns df') (rows df' ! k))" "c \<noteq> n"
  shows "(c, x) \<in> set (zip (columns df) (rows df ! k))"
proof (cases "n \<in> set (columns df)")
  case False
  with assms show ?thesis by (simp add: rewrites_column_def)
next
  case True
  with assms(1) obtain vs where vs: "length vs = length (rows df)" "df' = set_column df n vs"
    by (auto simp: rewrites_column_def)
  with assms(2,3) have "(c, x) \<in> set (zip (columns df) ((rows df ! k)[index_of n (columns df) := vs ! k]))"
    by (simp add: columns_set_column rows_set_column_nth)
  from in_zip_update_other[OF this assms(4) True] show ?thesis .
qed

lemma to_datetime_length: "to_datetime env col = Inr vs \<Longrightarrow> length vs = length col"
  by (simp add: to_datetime_def convert_all_length)

lemma date_rewrites:
  "convert_transaction_date env df = Inr df' \<Longrightarrow> rewrites_column ''TransactionDate'' df df'"
  by (auto simp: convert_transaction_date_def rewrites_column_def get_column_def
           dest!: to_datetime_length split: if_splits sum.splits)

lemma fit_transform_length: "fit_transform col = Inr vs \<Longrightarrow> length vs = length col"
  by (auto simp: fit_transform_def split: sum.splits)

lemma encode_rewrites: "encode_column n df = Inr df' \<Longrightarrow> rewrites_column n df df'"
  by (auto simp: encode_column_def rewrites_column_def get_column_def
           dest!: fit_transform_length split: if_splits sum.splits)

lemma columns_rename: "columns (rename_columns df) = map new_name (columns df)"
  by (simp add: rename_columns_def new_name_def)

lemma rows_rename: "rows (rename_columns df) = rows df"
  by (simp add: rename_columns_def)

lemma rectangular_rename: "rectangular df \<Longrightarrow> rectangular (rename_columns df)"
  by (simp add: rectangular_def columns_rename rows_rename)

lemma rename_absent: "''DiscountApplied(%)'' \<notin> set (columns df) \<Longrightarrow> rename_columns df = df"
proof -
  assume a: "''DiscountApplied(%)'' \<notin> set (columns df)"
  have "map (\<lambda>c. if c = ''DiscountApplied(%)'' then ''DiscountApplied'' else c) (columns df)
          = columns df"
    by (rule map_idI) (use a in auto)
  then show ?thesis by (simp add: rename_columns_def)
qed

lemma keep_cells_all:
  "length r = length cols \<Longrightarrow> (\<And>c. c \<in> set cols \<Longrightarrow> P c) \<Longrightarrow> keep_cells P cols r = r"
proof (induction cols arbitrary: r)
  case Nil
  then show ?case by (simp add: keep_cells_def)
next
  case (Cons c cols)
  then obtain v r' where "r = v # r'" by (cases r) auto
  with Cons show ?case by (simp add: keep_cells_Cons)
qed

lemma keep_cells_cong:
  "(\<And>c. c \<in> set cols \<Longrightarrow> P c = Q c) \<Longrightarrow> keep_cells P cols r = keep_cells Q cols r"
proof -
  assume a: "\<And>c. c \<in> set cols \<Longrightarrow> P c = Q c"
  have "filter (\<lambda>(c, v). P c) (zip cols r) = filter (\<lambda>(c, v). Q c) (zip cols r)"
    by (rule filter_cong) (auto dest: set_zip_leftD simp: a)
  then show ?thesis by (simp add: keep_cells_def)
qed

lemma drop_unneeded_total: "\<exists>df'. drop_unneeded df = Inr df'"
proof -
  have "filter (\<lambda>c. c \<notin> set (columns df)) (filter (\<lambda>c. c \<in> set (columns df)) cols_to_drop) = []"
    by (simp add: filter_empty_conv)
  then show ?thesis
    by (simp add: drop_unneeded_def drop_columns_def Let_def)
qed

lemma drop_unneeded_result:
  assumes "rectangular df"
  shows "drop_unneeded df =
           Inr \<lparr>columns = filter kept (columns df),
                rows = map (keep_cells kept (columns df)) (rows df)\<rparr>"
proof -
  define ex where "ex = filter (\<lambda>c. c \<in> set (columns df)) cols_to_drop"
  have none: "filter (\<lambda>c. c \<notin> set (columns df)) ex = []"
    by (simp add: ex_def filter_empty_conv)
  have same: "\<And>c. c \<in> set (columns df) \<Longrightarrow> (c \<notin> set ex) = kept c"
    by (auto simp: ex_def kept_def)
  have cols: "filter (\<lambda>c. c \<notin> set ex) (columns df) = filter kept (columns df)"
    by (rule filter_cong) (simp_all add: same)
  have cells: "\<And>r. keep_cells (\<lambda>c. c \<notin> set ex) (columns df) r = keep_cells kept (columns df) r"
    by (rule keep_cells_cong) (simp add: same)
  show ?thesis
  proof (cases "ex = []")
    case True
    then have all: "\<And>c. c \<in> set (columns df) \<Longrightarrow> kept c"
      using same by simp
    then have c: "filter kept (columns df) = columns df"
      by simp
    have "map (keep_cells kept (columns df)) (rows df) = map (\<lambda>r. r) (rows df)"
    proof (rule map_cong[OF refl])
      fix r assume "r \<in> set (rows df)"
      with assms have "length r = length (columns df)"
        by (simp add: rectangular_def list_all_iff)
      then show "keep_cells kept (columns df) r = r"
        by (rule keep_cells_all) (rule all)
    qed
    then have r: "map (keep_cells kept (columns df)) (rows df) = rows df"
      by simp
    from True have "drop_unneeded df = Inr df"
      by (simp add: drop_unneeded_def ex_def Let_def)
    then show ?thesis
      by (simp add: c r)
  next
    case False
    then have "drop_unneeded df = drop_columns ex df"
      by (simp add: drop_unneeded_def ex_def Let_def)
    also have "\<dots> = Inr \<lparr>columns = filter (\<lambda>c. c \<notin> set ex) (columns df),
                         rows = map (keep_cells (\<lambda>c. c \<notin> set ex) (columns df)) (rows df)\<rparr>"
      using none by (simp add: drop_columns_def keep_cells_def)
    finally show ?thesis
      by (simp add: cols cells)
  qed
qed






lemma set_sorted_unique: "set (sorted_unique xs) = set xs"
  by (simp add: sorted_unique_def)




lemma fit_transform_naturals:
  "fit_transform col = Inr vs \<Longrightarrow> v \<in> set vs \<Longrightarrow> \<exists>n::nat. v = Num (of_nat n)"
  by (auto simp: fit_transform_def split: sum.splits)

lemma read_csv_exists: "read_csv fs p = Inr df \<Longrightarrow> path_exists fs p"
  by (auto simp: read_csv_def path_exists_def split: option.splits)

lemma to_csv_written: "to_csv fs p df = Inr fs' \<Longrightarrow> fs' p = Some (CsvFile df)"
  by (auto simp: to_csv_def split: option.splits node.splits)

lemma run_unfold:
  assumes "read_csv fs input_path = Inr df"
  shows "preprocess_transaction_data env fs input_path output_path verbose =
     (case transform env df of
        Inl e \<Rightarrow> (Inl e, fs, progress verbose input_path df)
      | Inr w \<Rightarrow>
          (case mkdir_parents fs (parent output_path) of
             Inl e \<Rightarrow> (Inl e, fs, progress verbose input_path df)
           | Inr fs1 \<Rightarrow>
               (case to_csv fs1 output_path w of
                  Inl e \<Rightarrow> (Inl e, fs1, progress verbose input_path df)
                | Inr fs2 \<Rightarrow> (Inr output_path, fs2, progress verbose input_path df))))"
proof -
  from assms have ex: "path_exists fs input_path" by (rule read_csv_exists)
  have out: "((if verbose then [ReadingFrom input_path] else [])
               @ (if verbose then [DuplicatesBefore (length (filter id (duplicated df)))] else []))
               @ (if verbose then [MissingBefore (isnull_sum (drop_duplicates df))] else [])
             = progress verbose input_path df"
    by (simp add: progress_def)
  show ?thesis
  proof (cases "convert_transaction_date env (dropna (drop_duplicates df))")
    case (Inl e)
    then show ?thesis
      unfolding preprocess_transaction_data_def transform_def surviving_def Let_def
      by (simp add: ex assms progress_def)
  next
    case c3: (Inr df3)
    show ?thesis
    proof (cases "drop_unneeded (rename_columns df3)")
      case (Inl e)
      with c3 show ?thesis
        unfolding preprocess_transaction_data_def transform_def surviving_def Let_def
        by (simp add: ex assms progress_def)
    next
      case c5: (Inr df5)
      show ?thesis
      proof (cases "encode_column ''PaymentMethod'' df5")
        case (Inl e)
        with c3 c5 show ?thesis
          unfolding preprocess_transaction_data_def transform_def surviving_def Let_def
          by (simp add: ex assms progress_def)
      next
        case c6: (Inr df6)
        show ?thesis
        proof (cases "encode_column ''ProductCategory'' df6")
          case (Inl e)
          with c3 c5 c6 show ?thesis
            unfolding preprocess_transaction_data_def transform_def surviving_def Let_def
            by (simp add: ex assms progress_def)
        next
          case c7: (Inr df7)
          with c3 c5 c6 show ?thesis
            unfolding preprocess_transaction_data_def transform_def surviving_def Let_def
            by (cases verbose) (simp_all add: ex assms progress_def split: sum.splits)
        qed
      qed
    qed
  qed
qed

lemma run_success:
  assumes "preprocess_transaction_data env fs input_path output_path verbose = (Inr p, fs', out)"
    and "read_csv fs input_path = Inr df"
  shows "\<exists>w. transform env df = Inr w \<and> fs' output_path = Some (CsvFile w) \<and> p = output_path"
  using assms(1) unfolding run_unfold[OF assms(2)]
  by (auto split: sum.splits dest: to_csv_written)


lemma transform_stages:
  assumes "transform env df = Inr w"
  obtains df3 df5 df6 where
    "convert_transaction_date env (surviving df) = Inr df3"
    "drop_unneeded (rename_columns df3) = Inr df5"
    "encode_column ''PaymentMethod'' df5 = Inr df6"
    "encode_column ''ProductCategory'' df6 = Inr w"
  using assms unfolding transform_def by (auto split: sum.splits)

lemma rectangular_surviving: "well_formed df \<Longrightarrow> rectangular (surviving df)"
  by (auto simp: well_formed_def rectangular_def list_all_iff columns_surviving set_rows_surviving)

lemma rectangular_nth:
  "rectangular df \<Longrightarrow> k < length (rows df) \<Longrightarrow> length (rows df ! k) = length (columns df)"
  by (simp add: rectangular_def list_all_length)

lemma pipeline_stages:
  assumes "transform env df = Inr w" "well_formed df"
  obtains df3 df5 df6 where
    "convert_transaction_date env (surviving df) = Inr df3"
    "rewrites_column ''TransactionDate'' (surviving df) df3"
    "rectangular df3"
    "columns df5 = filter kept (map new_name (columns df))"
    "rows df5 = map (keep_cells kept (map new_name (columns df))) (rows df3)"
    "rectangular df5"
    "encode_column ''PaymentMethod'' df5 = Inr df6"
    "rewrites_column ''PaymentMethod'' df5 df6"
    "rectangular df6"
    "encode_column ''ProductCategory'' df6 = Inr w"
    "rewrites_column ''ProductCategory'' df6 w"
proof -
  from assms(1) obtain df3 df5 df6 where
    s3: "convert_transaction_date env (surviving df) = Inr df3" and
    s5: "drop_unneeded (rename_columns df3) = Inr df5" and
    s6: "encode_column ''PaymentMethod'' df5 = Inr df6" and
    s7: "encode_column ''ProductCategory'' df6 = Inr w"
    by (rule transform_stages)
  have r3: "rewrites_column ''TransactionDate'' (surviving df) df3"
    using s3 by (rule date_rewrites)
  have rect3: "rectangular df3"
    using r3 rectangular_surviving[OF assms(2)] by (rule rewrites_rectangular)
  have c3: "columns df3 = columns df"
    using rewrites_columns[OF r3] by (simp add: columns_surviving)
  have "drop_unneeded (rename_columns df3) =
          Inr \<lparr>columns = filter kept (columns (rename_columns df3)),
               rows = map (keep_cells kept (columns (rename_columns df3))) (rows (rename_columns df3))\<rparr>"
    using rect3 by (intro drop_unneeded_result rectangular_rename)
  with s5 have df5: "df5 = \<lparr>columns = filter kept (map new_name (columns df)),
               rows = map (keep_cells kept (map new_name (columns df))) (rows df3)\<rparr>"
    by (simp add: columns_rename rows_rename c3)
  have rect5: "rectangular df5"
    unfolding rectangular_def list_all_iff
  proof
    fix r assume "r \<in> set (rows df5)"
    then obtain r0 where r0: "r0 \<in> set (rows df3)"
      and r: "r = keep_cells kept (map new_name (columns df)) r0"
      by (auto simp: df5)
    from r0 rect3 have "length r0 = length (map new_name (columns df))"
      by (simp add: rectangular_def list_all_iff c3)
    then show "length r = length (columns df5)"
      by (simp add: r df5 length_keep_cells)
  qed
  have r6: "rewrites_column ''PaymentMethod'' df5 df6"
    using s6 by (rule encode_rewrites)
  have rect6: "rectangular df6"
    using r6 rect5 by (rule rewrites_rectangular)
  have r7: "rewrites_column ''ProductCategory'' df6 w"
    using s7 by (rule encode_rewrites)
  show thesis
    by (rule that[OF s3 r3 rect3 _ _ rect5 s6 r6 rect6 s7 r7]) (simp_all add: df5)
qed

lemma transform_columns:
  assumes "transform env df = Inr w" "well_formed df"
  shows "columns w = filter kept (map new_name (columns df))"
proof -
  from assms obtain df3 df5 df6 where
    "columns df5 = filter kept (map new_name (columns df))"
    "rewrites_column ''PaymentMethod'' df5 df6"
    "rewrites_column ''ProductCategory'' df6 w"
    by (rule pipeline_stages)
  then show ?thesis by (simp add: rewrites_columns)
qed

lemma transform_length:
  assumes "transform env df = Inr w" "well_formed df"
  shows "length (rows w) = length (rows (surviving df))"
proof -
  from assms obtain df3 df5 df6 where
    "rewrites_column ''TransactionDate'' (surviving df) df3"
    "rows df5 = map (keep_cells kept (map new_name (columns df))) (rows df3)"
    "rewrites_column ''PaymentMethod'' df5 df6"
    "rewrites_column ''ProductCategory'' df6 w"
    by (rule pipeline_stages)
  then show ?thesis by (simp add: rewrites_length)
qed

lemma encode_cells:
  assumes "encode_column n df = Inr df'" "k < length (rows df)"
    "(c, x) \<in> set (zip (columns df') (rows df' ! k))"
  shows "(c, x) \<in> set (zip (columns df) (rows df ! k)) \<or> (\<exists>m::nat. x = Num (of_nat m))"
proof (cases "n \<in> set (columns df)")
  case False
  with assms show ?thesis by (simp add: encode_column_def)
next
  case True
  with assms(1) obtain vs where ft: "fit_transform (get_column df n) = Inr vs"
    and df': "df' = set_column df n vs"
    by (auto simp: encode_column_def split: sum.splits)
  from ft have len: "length vs = length (rows df)"
    using fit_transform_length[OF ft] by (simp add: get_column_def)
  with assms(2,3) have "(c, x) \<in> set (zip (columns df) ((rows df ! k)[index_of n (columns df) := vs ! k]))"
    by (simp add: df' columns_set_column rows_set_column_nth)
  then have "(c, x) \<in> set (zip (columns df) (rows df ! k)) \<or> x = vs ! k"
    by (auto dest: in_zip_update)
  moreover have "vs ! k \<in> set vs" using len assms(2) by simp
  then have "\<exists>m::nat. vs ! k = Num (of_nat m)" by (rule fit_transform_naturals[OF ft])
  ultimately show ?thesis by auto
qed

lemma dropped_cells:
  assumes "length r = length cols" "(c, x) \<in> set (zip (filter P cols) (keep_cells P cols r))"
  shows "(c, x) \<in> set (zip cols r)"
  using assms by (simp add: zip_keep_cells)

lemma transform_cells:
  assumes t: "transform env df = Inr w" and wf: "well_formed df"
    and k: "k < length (rows (surviving df))"
    and cx: "(c, x) \<in> set (zip (columns w) (rows w ! k))"
    and c: "c \<noteq> ''TransactionDate''"
  shows "(\<exists>c0. new_name c0 = c \<and> (c0, x) \<in> set (zip (columns df) (rows (surviving df) ! k)))
         \<or> (c \<in> {''PaymentMethod'', ''ProductCategory''} \<and> (\<exists>m::nat. x = Num (of_nat m)))"
proof -
  from t wf obtain df3 df5 df6 where
    r3: "rewrites_column ''TransactionDate'' (surviving df) df3" and
    rect3: "rectangular df3" and
    c5: "columns df5 = filter kept (map new_name (columns df))" and
    rows5: "rows df5 = map (keep_cells kept (map new_name (columns df))) (rows df3)" and
    s6: "encode_column ''PaymentMethod'' df5 = Inr df6" and
    r6: "rewrites_column ''PaymentMethod'' df5 df6" and
    s7: "encode_column ''ProductCategory'' df6 = Inr w" and
    r7: "rewrites_column ''ProductCategory'' df6 w"
    by (rule pipeline_stages)
  have k3: "k < length (rows df3)" using k r3 by (simp add: rewrites_length)
  have k5: "k < length (rows df5)" using k3 by (simp add: rows5)
  have k6: "k < length (rows df6)" using k5 r6 by (simp add: rewrites_length)
  have c3: "columns df3 = columns df"
    using rewrites_columns[OF r3] by (simp add: columns_surviving)
  have from5: "(\<exists>c0. new_name c0 = c \<and> (c0, x) \<in> set (zip (columns df) (rows (surviving df) ! k)))"
    if in5: "(c, x) \<in> set (zip (columns df5) (rows df5 ! k))"
  proof -
    have len: "length (rows df3 ! k) = length (map new_name (columns df))"
      using rectangular_nth[OF rect3 k3] by (simp add: c3)
    from in5 have "(c, x) \<in> set (zip (map new_name (columns df)) (rows df3 ! k))"
      using k3 by (simp add: c5 rows5 dropped_cells[OF len])
    then obtain c0 where c0: "new_name c0 = c" "(c0, x) \<in> set (zip (columns df3) (rows df3 ! k))"
      by (auto dest: in_zip_map simp: c3)
    from c0(1) c have "c0 \<noteq> ''TransactionDate''" by (auto simp: new_name_def)
    from rewrites_cells[OF r3 k c0(2) this] c0(1) show ?thesis
      by (auto simp: columns_surviving)
  qed
  show ?thesis
  proof (cases "c = ''ProductCategory''")
    case True
    from encode_cells[OF s7 k6 cx] show ?thesis
    proof
      assume in6: "(c, x) \<in> set (zip (columns df6) (rows df6 ! k))"
      have "c \<noteq> ''PaymentMethod''" using True by simp
      from rewrites_cells[OF r6 k5 in6 this] from5 show ?thesis by blast
    next
      assume "\<exists>m::nat. x = Num (of_nat m)"
      with True show ?thesis by simp
    qed
  next
    case False
    from rewrites_cells[OF r7 k6 cx False]
    have in6: "(c, x) \<in> set (zip (columns df6) (rows df6 ! k))" .
    from encode_cells[OF s6 k5 in6] show ?thesis
    proof
      assume "(c, x) \<in> set (zip (columns df5) (rows df5 ! k))"
      with from5 show ?thesis by blast
    next
      assume m: "\<exists>m::nat. x = Num (of_nat m)"
      show ?thesis
      proof (cases "c = ''PaymentMethod''")
        case True
        with m show ?thesis by simp
      next
        case False
        from rewrites_cells[OF r6 k5 in6 False] from5 show ?thesis by blast
      qed
    qed
  qed
qed

lemma keep_column_at:
  assumes "rectangular df" "i < length (columns df)" "P (f (columns df ! i))"
  shows "map (\<lambda>r. r ! length (filter P (take i (map f (columns df)))))
           (map (keep_cells P (map f (columns df))) (rows df)) = column_at df i"
proof -
  have "\<And>r. r \<in> set (rows df) \<Longrightarrow>
          keep_cells P (map f (columns df)) r ! length (filter P (take i (map f (columns df)))) = r ! i"
  proof -
    fix r assume "r \<in> set (rows df)"
    with assms(1) have "length r = length (map f (columns df))"
      by (simp add: rectangular_def list_all_iff)
    then show "keep_cells P (map f (columns df)) r ! length (filter P (take i (map f (columns df)))) = r ! i"
      by (rule keep_cells_nth) (use assms in simp_all)
  qed
  then show ?thesis by (simp add: column_at_def)
qed

lemma transform_column_carried:
  assumes t: "transform env df = Inr w" and wf: "well_formed df"
    and i: "i < length (columns df)"
    and nd: "columns df ! i \<noteq> ''TransactionDate''"
    and kp: "kept (new_name (columns df ! i))"
    and ne: "new_name (columns df ! i) \<noteq> ''PaymentMethod''"
            "new_name (columns df ! i) \<noteq> ''ProductCategory''"
  shows "\<exists>j<length (columns w). columns w ! j = new_name (columns df ! i)
           \<and> column_at w j = column_at (surviving df) i"
proof -
  from t wf obtain df3 df5 df6 where
    r3: "rewrites_column ''TransactionDate'' (surviving df) df3" and
    rect3: "rectangular df3" and
    c5: "columns df5 = filter kept (map new_name (columns df))" and
    rows5: "rows df5 = map (keep_cells kept (map new_name (columns df))) (rows df3)" and
    r6: "rewrites_column ''PaymentMethod'' df5 df6" and
    r7: "rewrites_column ''ProductCategory'' df6 w"
    by (rule pipeline_stages)
  define j where "j = length (filter kept (take i (map new_name (columns df))))"
  have c3: "columns df3 = columns df"
    using rewrites_columns[OF r3] by (simp add: columns_surviving)
  have i4: "i < length (map new_name (columns df))" "kept (map new_name (columns df) ! i)"
    using i kp by simp_all
  have j5: "j < length (columns df5)"
    unfolding j_def c5 by (rule filter_take_less[of i "map new_name (columns df)" kept, OF i4])
  have n5: "columns df5 ! j = new_name (columns df ! i)"
    unfolding j_def c5 using filter_take_nth[of i "map new_name (columns df)" kept, OF i4] i by simp
  have a3: "column_at df3 i = column_at (surviving df) i"
    by (rule rewrites_column_at[OF r3]) (use i nd in \<open>simp_all add: columns_surviving\<close>)
  have a5: "column_at df5 j = column_at df3 i"
    using keep_column_at[of df3 i kept new_name] rect3 i kp
    by (simp add: column_at_def rows5 c3 j_def)
  have a6: "column_at df6 j = column_at df5 j"
    by (rule rewrites_column_at[OF r6 j5]) (simp add: n5 ne)
  have c6: "columns df6 = columns df5" by (rule rewrites_columns[OF r6])
  have a7: "column_at w j = column_at df6 j"
    by (rule rewrites_column_at[OF r7]) (simp_all add: c6 j5 n5 ne)
  have "columns w = columns df5" using rewrites_columns[OF r7] c6 by simp
  with j5 n5 a3 a5 a6 a7 show ?thesis by auto
qed

lemma encode_result:
  assumes "encode_column n df = Inr df'" "n \<in> set (columns df)" "rectangular df"
  shows "fit_transform (get_column df n) = Inr (get_column df' n)"
proof -
  from assms(1,2) obtain vs where ft: "fit_transform (get_column df n) = Inr vs"
    and df': "df' = set_column df n vs"
    by (auto simp: encode_column_def split: sum.splits)
  have len: "length vs = length (rows df)"
    using fit_transform_length[OF ft] by (simp add: get_column_def)
  have "get_column df' n = vs"
    using column_at_set_column_same[OF len assms(3,2)]
    by (simp add: get_column_at df' columns_set_column)
  with ft show ?thesis by simp
qed

lemma transform_encoded:
  assumes t: "transform env df = Inr w" and wf: "well_formed df"
    and n: "n = ''PaymentMethod'' \<or> n = ''ProductCategory''"
    and present: "n \<in> set (columns df)"
  shows "n \<in> set (columns w) \<and> fit_transform (get_column (surviving df) n) = Inr (get_column w n)"
proof -
  from t wf obtain df3 df5 df6 where
    r3: "rewrites_column ''TransactionDate'' (surviving df) df3" and
    rect3: "rectangular df3" and
    c5: "columns df5 = filter kept (map new_name (columns df))" and
    rows5: "rows df5 = map (keep_cells kept (map new_name (columns df))) (rows df3)" and
    rect5: "rectangular df5" and
    s6: "encode_column ''PaymentMethod'' df5 = Inr df6" and
    r6: "rewrites_column ''PaymentMethod'' df5 df6" and
    rect6: "rectangular df6" and
    s7: "encode_column ''ProductCategory'' df6 = Inr w" and
    r7: "rewrites_column ''ProductCategory'' df6 w"
    by (rule pipeline_stages)
  define i where "i = index_of n (columns df)"
  have i: "i < length (columns df)" "columns df ! i = n"
    using present by (simp_all add: i_def index_of_less nth_index_of)
  have nn: "new_name n = n" "kept n" "n \<noteq> ''TransactionDate''"
    using n by (auto simp: new_name_def kept_def cols_to_drop_def)
  have c3: "columns df3 = columns df"
    using rewrites_columns[OF r3] by (simp add: columns_surviving)
  have i4: "index_of n (map new_name (columns df)) = i"
    unfolding i_def by (rule index_of_map) (use n in \<open>auto simp: new_name_def\<close>)
  have in4: "n \<in> set (map new_name (columns df))"
    using present nn(1) by (metis image_eqI set_map)
  have i5: "index_of n (columns df5) = length (filter kept (take i (map new_name (columns df))))"
    unfolding c5 using index_of_filter[OF in4, of kept] nn(2) i4 by simp
  have in5: "n \<in> set (columns df5)"
    using in4 nn(2) by (simp add: c5)
  have a3: "column_at df3 i = column_at (surviving df) i"
    by (rule rewrites_column_at[OF r3]) (use i nn in \<open>simp_all add: columns_surviving\<close>)
  have a5: "get_column df5 n = column_at df3 i"
    using keep_column_at[of df3 i kept new_name] rect3 i nn
    by (simp add: get_column_at column_at_def rows5 c3 i5)
  have src: "get_column df5 n = get_column (surviving df) n"
    using a5 a3 by (simp add: get_column_at columns_surviving i_def)
  have c6: "columns df6 = columns df5" by (rule rewrites_columns[OF r6])
  have c7: "columns w = columns df5" using rewrites_columns[OF r7] c6 by simp
  from n show ?thesis
  proof
    assume pm: "n = ''PaymentMethod''"
    have "fit_transform (get_column df5 n) = Inr (get_column df6 n)"
      using s6 in5 rect5 unfolding pm by (rule encode_result)
    moreover have "get_column w n = get_column df6 n"
      by (rule rewrites_get_column[OF r7]) (use in5 pm in \<open>simp_all add: c6\<close>)
    ultimately show ?thesis using src in5 c7 by simp
  next
    assume pc: "n = ''ProductCategory''"
    have "get_column df6 n = get_column df5 n"
      by (rule rewrites_get_column[OF r6]) (use in5 pc in simp_all)
    moreover have "fit_transform (get_column df6 n) = Inr (get_column w n)"
      unfolding pc by (rule encode_result[OF s7]) (use in5 pc rect6 in \<open>simp_all add: c6\<close>)
    ultimately show ?thesis using src in5 c7 by simp
  qed
qed

lemma index_of_sorted:
  "sorted xs \<Longrightarrow> distinct xs \<Longrightarrow> x \<in> set xs \<Longrightarrow> index_of x xs = card {y \<in> set xs. y < x}"
proof (induction xs)
  case Nil
  then show ?case by simp
next
  case (Cons a xs)
  show ?case
  proof (cases "x = a")
    case True
    with Cons.prems have "{y \<in> set (a # xs). y < x} = {}" by auto
    with True show ?thesis by simp
  next
    case False
    with Cons.prems have x: "x \<in> set xs" and ax: "a < x" by auto
    from Cons.prems have "a \<notin> set xs" by simp
    with ax have "{y \<in> set (a # xs). y < x} = insert a {y \<in> set xs. y < x}" by auto
    moreover have "a \<notin> {y \<in> set xs. y < x}" using \<open>a \<notin> set xs\<close> by simp
    ultimately have "card {y \<in> set (a # xs). y < x} = Suc (card {y \<in> set xs. y < x})"
      by simp
    moreover have "index_of x xs = card {y \<in> set xs. y < x}"
      using Cons.prems x by (intro Cons.IH) auto
    ultimately show ?thesis using False by simp
  qed
qed

lemma index_of_image: "distinct xs \<Longrightarrow> (\<lambda>x. index_of x xs) ` set xs = {0..<length xs}"
proof (rule set_eqI, rule iffI)
  fix j assume "distinct xs" "j \<in> (\<lambda>x. index_of x xs) ` set xs"
  then show "j \<in> {0..<length xs}" by (auto simp: index_of_less)
next
  fix j assume d: "distinct xs" and "j \<in> {0..<length xs}"
  then have j: "j < length xs" by simp
  then have "index_of (xs ! j) xs = j" using d by (simp add: index_of_nth_distinct)
  moreover have "xs ! j \<in> set xs" using j by simp
  ultimately show "j \<in> (\<lambda>x. index_of x xs) ` set xs" by (metis imageI)
qed

lemma sorted_unique_props:
  "sorted (sorted_unique xs)" "distinct (sorted_unique xs)"
  "length (sorted_unique xs) = card (set xs)"
  by (simp_all add: sorted_unique_def length_remdups_card_conv)

lemma str_values_map: "str_values (map Str ss) = ss"
  by (induction ss) auto

lemma label_classes_strings: "label_classes (map Str ss) = Inr (map Str (sorted_unique ss))"
proof -
  have "filter (\<lambda>c. c \<noteq> NA) (map Str ss) = map Str ss"
    by (induction ss) auto
  moreover have "list_all is_Str (map Str ss)" by (simp add: list_all_iff)
  moreover have "NA \<notin> set (map Str ss)" by auto
  ultimately show ?thesis
    by (simp add: label_classes_def Let_def str_values_map)
qed

lemma index_of_Str: "index_of (Str s) (map Str xs) = index_of s xs"
  by (induction xs) auto

lemma fit_transform_strings:
  "fit_transform (map Str ss) = Inr (map (\<lambda>s. Num (of_nat (card {x \<in> set ss. x < s}))) ss)"
proof -
  have "\<And>s. s \<in> set ss \<Longrightarrow>
          index_of (Str s) (map Str (sorted_unique ss)) = card {x \<in> set ss. x < s}"
  proof -
    fix s assume s: "s \<in> set ss"
    have "index_of (Str s) (map Str (sorted_unique ss)) = index_of s (sorted_unique ss)"
      by (rule index_of_Str)
    also have "\<dots> = card {y \<in> set (sorted_unique ss). y < s}"
      by (rule index_of_sorted) (use s in \<open>simp_all add: sorted_unique_props set_sorted_unique\<close>)
    finally show "index_of (Str s) (map Str (sorted_unique ss)) = card {x \<in> set ss. x < s}"
      by (simp add: set_sorted_unique)
  qed
  then show ?thesis
    by (simp add: fit_transform_def label_classes_strings comp_def)
qed

lemma rank_image:
  "(\<lambda>s. card {x \<in> set ss. x < s}) ` set ss = {0..<card (set (ss::'a::linorder list))}"
proof -
  have "\<And>s. s \<in> set ss \<Longrightarrow> index_of s (sorted_unique ss) = card {x \<in> set ss. x < s}"
    using index_of_sorted[of "sorted_unique ss"]
    by (simp add: sorted_unique_props set_sorted_unique)
  then have "(\<lambda>s. card {x \<in> set ss. x < s}) ` set ss
               = (\<lambda>s. index_of s (sorted_unique ss)) ` set (sorted_unique ss)"
    by (simp add: set_sorted_unique)
  also have "\<dots> = {0..<length (sorted_unique ss)}"
    by (rule index_of_image) (simp add: sorted_unique_props)
  finally show ?thesis by (simp add: sorted_unique_props)
qed

lemma to_datetime_value_null:
  "to_datetime_value env col v = Inr NA \<Longrightarrow> v = NA \<or> null_marker env v"
  by (cases v) (auto simp: null_marker_def split: if_splits option.splits conversion.splits)

lemma date_result:
  assumes "convert_transaction_date env df = Inr df'" "''TransactionDate'' \<in> set (columns df)"
    "rectangular df"
  shows "to_datetime env (get_column df ''TransactionDate'') = Inr (get_column df' ''TransactionDate'')"
proof -
  from assms(1,2) obtain vs where ft: "to_datetime env (get_column df ''TransactionDate'') = Inr vs"
    and df': "df' = set_column df ''TransactionDate'' vs"
    by (auto simp: convert_transaction_date_def split: sum.splits)
  have len: "length vs = length (rows df)"
    using to_datetime_length[OF ft] by (simp add: get_column_def)
  have "get_column df' ''TransactionDate'' = vs"
    using column_at_set_column_same[OF len assms(3,2)]
    by (simp add: get_column_at df' columns_set_column)
  with ft show ?thesis by simp
qed

lemma dropped_get_column:
  assumes rect3: "rectangular df3"
    and c5: "columns df5 = filter kept (map new_name (columns df3))"
    and rows5: "rows df5 = map (keep_cells kept (map new_name (columns df3))) (rows df3)"
    and present: "n \<in> set (columns df3)"
    and nn: "new_name n = n" "kept n" "\<And>y. (new_name y = n) = (y = n)"
  shows "n \<in> set (columns df5) \<and> get_column df5 n = get_column df3 n"
proof -
  define i where "i = index_of n (columns df3)"
  have i: "i < length (columns df3)" "columns df3 ! i = n"
    using present by (simp_all add: i_def index_of_less nth_index_of)
  have i4: "index_of n (map new_name (columns df3)) = i"
    unfolding i_def by (rule index_of_map) (rule nn(3))
  have in4: "n \<in> set (map new_name (columns df3))"
    using present nn(1) by (metis image_eqI set_map)
  have i5: "index_of n (columns df5) = length (filter kept (take i (map new_name (columns df3))))"
    unfolding c5 using index_of_filter[OF in4, of kept] nn(2) i4 by simp
  have in5: "n \<in> set (columns df5)"
    using in4 nn(2) by (simp add: c5)
  have "kept (new_name (columns df3 ! i))" using i nn(1,2) by simp
  from keep_column_at[OF rect3 i(1), of kept new_name, OF this]
  have "get_column df5 n = column_at df3 i"
    by (simp add: get_column_at column_at_def rows5 i5)
  then show ?thesis using in5 by (simp add: get_column_at i_def)
qed

lemma transform_date:
  assumes t: "transform env df = Inr w" and wf: "well_formed df"
    and present: "''TransactionDate'' \<in> set (columns df)"
  shows "to_datetime env (get_column (surviving df) ''TransactionDate'')
           = Inr (get_column w ''TransactionDate'')"
proof -
  from t wf obtain df3 df5 df6 where
    s3: "convert_transaction_date env (surviving df) = Inr df3" and
    r3: "rewrites_column ''TransactionDate'' (surviving df) df3" and
    rect3: "rectangular df3" and
    c5: "columns df5 = filter kept (map new_name (columns df))" and
    rows5: "rows df5 = map (keep_cells kept (map new_name (columns df))) (rows df3)" and
    r6: "rewrites_column ''PaymentMethod'' df5 df6" and
    r7: "rewrites_column ''ProductCategory'' df6 w"
    by (rule pipeline_stages)
  have c3: "columns df3 = columns df"
    using rewrites_columns[OF r3] by (simp add: columns_surviving)
  have n1: "new_name ''TransactionDate'' = ''TransactionDate''"
    by (simp add: new_name_def)
  have n2: "kept ''TransactionDate''"
    by (simp add: kept_def cols_to_drop_def)
  have n3: "\<And>y. (new_name y = ''TransactionDate'') = (y = ''TransactionDate'')"
    by (simp add: new_name_def)
  have p3: "''TransactionDate'' \<in> set (columns df3)" using present c3 by simp
  from dropped_get_column[OF rect3 c5[folded c3] rows5[folded c3] p3 n1 n2 n3]
  have in5: "''TransactionDate'' \<in> set (columns df5)"
    and a5: "get_column df5 ''TransactionDate'' = get_column df3 ''TransactionDate''"
    by simp_all
  have c6: "columns df6 = columns df5" by (rule rewrites_columns[OF r6])
  have a6: "get_column df6 ''TransactionDate'' = get_column df5 ''TransactionDate''"
    by (rule rewrites_get_column[OF r6 in5]) simp
  have in6: "''TransactionDate'' \<in> set (columns df6)" using in5 c6 by simp
  have a7: "get_column w ''TransactionDate'' = get_column df6 ''TransactionDate''"
    by (rule rewrites_get_column[OF r7 in6]) simp
  have p: "''TransactionDate'' \<in> set (columns (surviving df))"
    using present by (simp add: columns_surviving)
  have "to_datetime env (get_column (surviving df) ''TransactionDate'')
          = Inr (get_column df3 ''TransactionDate'')"
    by (rule date_result[OF s3 p rectangular_surviving[OF wf]])
  then show ?thesis by (simp only: a5 a6 a7)
qed

lemma surviving_cell_present:
  assumes "k < length (rows (surviving df))" "(c, x) \<in> set (zip cols (rows (surviving df) ! k))"
  shows "x \<noteq> NA"
proof -
  from assms(1) have "rows (surviving df) ! k \<in> set (rows (surviving df))" by simp
  then have "NA \<notin> set (rows (surviving df) ! k)" by (simp add: set_rows_surviving)
  moreover from assms(2) have "x \<in> set (rows (surviving df) ! k)" by (rule set_zip_rightD)
  ultimately show ?thesis by auto
qed

text \<open>
  C1 (as amended). Whenever a call completes, the table it writes has one row for each row
  that survives deduplication and null removal; every surviving row is a loaded row with
  no missing value in any column as loaded (so a row whose only missing value stands in
  StoreLocation or ProductID is gone); and no written row has a missing value in any
  column other than TransactionDate. A written TransactionDate is missing only where the
  loaded value is one that the date conversion reads as null (the empty string, one of
  \<open>nat_strings\<close>, or a number read as null).
\<close>

theorem written_rows_complete_except_date:
  assumes "read_csv fs input_path = Inr df" and "well_formed df"
    and "preprocess_transaction_data env fs input_path output_path verbose = (Inr p, fs', out)"
  shows "\<exists>written. fs' output_path = Some (CsvFile written)
     \<and> length (rows written) = length (rows (surviving df))
     \<and> (\<forall>r\<in>set (rows (surviving df)). r \<in> set (rows df) \<and> NA \<notin> set r)
     \<and> (\<forall>k<length (rows written). \<forall>(c, x)\<in>set (zip (columns written) (rows written ! k)).
           c \<noteq> ''TransactionDate'' \<longrightarrow> x \<noteq> NA)
     \<and> (\<forall>k<length (rows written). ''TransactionDate'' \<in> set (columns df) \<longrightarrow>
           get_column written ''TransactionDate'' ! k = NA \<longrightarrow>
           null_marker env (get_column (surviving df) ''TransactionDate'' ! k))"
proof -
  from run_success[OF assms(3,1)] obtain w where
    t: "transform env df = Inr w" and w: "fs' output_path = Some (CsvFile w)" by blast
  have len: "length (rows w) = length (rows (surviving df))"
    by (rule transform_length[OF t assms(2)])
  have src: "\<forall>r\<in>set (rows (surviving df)). r \<in> set (rows df) \<and> NA \<notin> set r"
    by (simp add: set_rows_surviving)
  have cells: "\<forall>k<length (rows w). \<forall>(c, x)\<in>set (zip (columns w) (rows w ! k)).
           c \<noteq> ''TransactionDate'' \<longrightarrow> x \<noteq> NA"
  proof (intro allI impI ballI)
    fix k cx assume k: "k < length (rows w)" and cx: "cx \<in> set (zip (columns w) (rows w ! k))"
    obtain c x where [simp]: "cx = (c, x)" by (cases cx)
    show "case cx of (c, x) \<Rightarrow> c \<noteq> ''TransactionDate'' \<longrightarrow> x \<noteq> NA"
    proof (simp, rule impI)
      assume c: "c \<noteq> ''TransactionDate''"
      from k len have k': "k < length (rows (surviving df))" by simp
      from transform_cells[OF t assms(2) k' _ c, of x] cx
      show "x \<noteq> NA" by (auto dest: surviving_cell_present[OF k'])
    qed
  qed
  have dates: "\<forall>k<length (rows w). ''TransactionDate'' \<in> set (columns df) \<longrightarrow>
           get_column w ''TransactionDate'' ! k = NA \<longrightarrow>
           null_marker env (get_column (surviving df) ''TransactionDate'' ! k)"
  proof (intro allI impI)
    fix k assume k: "k < length (rows w)" and td: "''TransactionDate'' \<in> set (columns df)"
      and na: "get_column w ''TransactionDate'' ! k = NA"
    let ?col = "get_column (surviving df) ''TransactionDate''"
    have k': "k < length ?col" using k len by (simp add: get_column_def)
    from transform_date[OF t assms(2) td]
    have "convert_all (to_datetime_value env ?col) ?col = Inr (get_column w ''TransactionDate'')"
      by (simp add: to_datetime_def)
    from convert_all_nth[OF this k'] na
    have "to_datetime_value env ?col (?col ! k) = Inr NA" by simp
    then have "?col ! k = NA \<or> null_marker env (?col ! k)" by (rule to_datetime_value_null)
    moreover have "?col ! k \<noteq> NA"
    proof -
      have row: "rows (surviving df) ! k \<in> set (rows (surviving df))" using k len by simp
      then have "NA \<notin> set (rows (surviving df) ! k)" by (simp add: set_rows_surviving)
      moreover have "length (rows (surviving df) ! k) = length (columns (surviving df))"
        using rectangular_nth[OF rectangular_surviving[OF assms(2)]] k len by simp
      then have "index_of ''TransactionDate'' (columns (surviving df)) < length (rows (surviving df) ! k)"
        using td by (simp add: columns_surviving index_of_less)
      then have "?col ! k \<in> set (rows (surviving df) ! k)"
        using k len by (simp add: get_column_def)
      ultimately show ?thesis by auto
    qed
    ultimately show "null_marker env (?col ! k)" by simp
  qed
  show ?thesis
  proof (intro exI[of _ w] conjI)
    show "fs' output_path = Some (CsvFile w)" by (rule w)
    show "length (rows w) = length (rows (surviving df))" by (rule len)
    show "\<forall>r\<in>set (rows (surviving df)). r \<in> set (rows df) \<and> NA \<notin> set r" by (rule src)
    show "\<forall>k<length (rows w). \<forall>(c, x)\<in>set (zip (columns w) (rows w ! k)).
           c \<noteq> ''TransactionDate'' \<longrightarrow> x \<noteq> NA" by (rule cells)
    show "\<forall>k<length (rows w). ''TransactionDate'' \<in> set (columns df) \<longrightarrow>
           get_column w ''TransactionDate'' ! k = NA \<longrightarrow>
           null_marker env (get_column (surviving df) ''TransactionDate'' ! k)" by (rule dates)
  qed
qed

lemma sample_well_formed: "well_formed sample_table"
  by (simp add: well_formed_def sample_table_def)

lemma sample_read: "read_csv sample_fs [''raw.csv''] = Inr sample_table"
  by (simp add: read_csv_def node_at_def sample_fs_def)

lemma sample_transform: "transform sample_env sample_table = Inr sample_clean"
  by code_simp

lemma sample_surviving:
  "surviving sample_table = sample_table\<lparr>rows :=
     [[Str ''2024-01-15'', Num 5, Str ''Jakarta'', Str ''P1'', Str ''Cash'', Str ''Books'', Num 2],
      [Str ''2024-01-16'', Num 0, Str ''Medan'', Str ''P3'', Str ''Card'', Str ''Books'', Num 3],
      [Str ''2024-01-17'', Num 7, Str ''Bali'', Str ''P4'', Str ''Cash'', Str ''Apparel'', Num 1]]\<rparr>"
  by code_simp

lemma sample_mkdir:
  "mkdir_parents sample_fs [''output''] = Inr (sample_fs([''output''] \<mapsto> Directory))"
  by (simp add: mkdir_parents.simps[of _ "[''output'']"] mkdir_parents.simps[of _ "[]"]
        node_at_def parent_def sample_fs_def)

lemma sample_parent: "parent [''output'', ''clean.csv''] = [''output'']"
  by (simp add: parent_def)

lemma sample_to_csv:
  "to_csv (sample_fs([''output''] \<mapsto> Directory)) [''output'', ''clean.csv''] sample_clean
     = Inr sample_fs_after"
  by (simp add: to_csv_def node_at_def parent_def sample_fs_def sample_fs_after_def)

lemma sample_run:
  "preprocess_transaction_data sample_env sample_fs [''raw.csv''] [''output'', ''clean.csv''] verbose
     = (Inr [''output'', ''clean.csv''], sample_fs_after, progress verbose [''raw.csv''] sample_table)"
  by (simp add: run_unfold[OF sample_read] sample_transform sample_parent sample_mkdir
        sample_to_csv)

text \<open>
  C1 as stated does not hold of the written table. The string \<^verbatim>\<open>NaT\<close> is no missing
  value for \<^verbatim>\<open>read_csv\<close> and \<^verbatim>\<open>dropna\<close>, and \<^verbatim>\<open>to_datetime\<close>, which runs after them, turns it
  into the null timestamp without raising: the second written row has a missing
  TransactionDate.
\<close>

theorem nat_string_counterexample:
  "fst (snd (preprocess_transaction_data sample_env nat_fs [''raw.csv''] [''clean.csv''] False))
       [''clean.csv'']
     = Some (CsvFile \<lparr>columns = [''TransactionDate'', ''Quantity''],
                       rows = [[Timestamp 15, Num 1], [NA, Num 2]]\<rparr>)"
  by code_simp

theorem written_rows_complete_except_date_witness:
  "read_csv sample_fs [''raw.csv''] = Inr sample_table \<and> well_formed sample_table \<and>
   preprocess_transaction_data sample_env sample_fs [''raw.csv''] [''output'', ''clean.csv''] True
     = (Inr [''output'', ''clean.csv''], sample_fs_after, progress True [''raw.csv''] sample_table) \<and>
   (\<exists>written. sample_fs_after [''output'', ''clean.csv''] = Some (CsvFile written)
     \<and> length (rows written) = length (rows (surviving sample_table))
     \<and> (\<forall>r\<in>set (rows (surviving sample_table)). r \<in> set (rows sample_table) \<and> NA \<notin> set r)
     \<and> (\<forall>k<length (rows written). \<forall>(c, x)\<in>set (zip (columns written) (rows written ! k)).
           c \<noteq> ''TransactionDate'' \<longrightarrow> x \<noteq> NA)
     \<and> (\<forall>k<length (rows written). ''TransactionDate'' \<in> set (columns sample_table) \<longrightarrow>
           get_column written ''TransactionDate'' ! k = NA \<longrightarrow>
           null_marker sample_env (get_column (surviving sample_table) ''TransactionDate'' ! k)))"
  using written_rows_complete_except_date[OF sample_read sample_well_formed sample_run[of True]]
    sample_read sample_well_formed sample_run[of True]
  by simp

text \<open>
  C6. When nothing exists at \<open>input_path\<close>, the call raises FileNotFoundError with a
  message that ends in the path, before anything is read, printed or written: the file
  system is what it was.
\<close>

theorem missing_input_raises_first:
  assumes "\<not> path_exists fs input_path"
  shows "preprocess_transaction_data env fs input_path output_path verbose
           = (Inl (FileNotFoundError (''File input tidak ditemukan: '' @ path_str input_path)),
              fs, [])"
  using assms by (simp add: preprocess_transaction_data_def)

theorem missing_input_raises_first_witness:
  "\<not> path_exists sample_fs [''data'', ''missing.csv''] \<and>
   preprocess_transaction_data sample_env sample_fs [''data'', ''missing.csv'']
       [''output'', ''clean.csv''] True
     = (Inl (FileNotFoundError ''File input tidak ditemukan: data/missing.csv''), sample_fs, [])"
proof -
  have h: "\<not> path_exists sample_fs [''data'', ''missing.csv'']"
    by (simp add: path_exists_def node_at_def sample_fs_def)
  from missing_input_raises_first[OF h, of sample_env "[''output'', ''clean.csv'']" True] h
  show ?thesis by simp
qed



text \<open>
  C2. Whenever a call completes, the written table has one row for each surviving row, in
  order; the surviving rows are pairwise different over all the columns as loaded, and
  they are the loaded rows without a missing value that have no equal row before them
  (of equal loaded rows the first is the one kept). Row \<open>k\<close> of the written table comes
  from surviving row \<open>k\<close>: outside the converted and encoded columns its cells are that
  row's cells, under the new column name.
\<close>

theorem written_rows_first_occurrences:
  assumes "read_csv fs input_path = Inr df" and "well_formed df"
    and "preprocess_transaction_data env fs input_path output_path verbose = (Inr p, fs', out)"
  shows "\<exists>written. fs' output_path = Some (CsvFile written)
     \<and> length (rows written) = length (rows (surviving df))
     \<and> distinct (rows (surviving df))
     \<and> rows (surviving df)
          = filter (\<lambda>r. NA \<notin> set r) (nths (rows df) {i. rows df ! i \<notin> set (take i (rows df))})
     \<and> (\<forall>k<length (rows written). \<forall>(c, x)\<in>set (zip (columns written) (rows written ! k)).
           c \<notin> {''TransactionDate'', ''PaymentMethod'', ''ProductCategory''} \<longrightarrow>
           (\<exists>c0. new_name c0 = c \<and> (c0, x) \<in> set (zip (columns df) (rows (surviving df) ! k))))"
proof -
  from run_success[OF assms(3,1)] obtain w where
    t: "transform env df = Inr w" and w: "fs' output_path = Some (CsvFile w)" by blast
  have len: "length (rows w) = length (rows (surviving df))"
    by (rule transform_length[OF t assms(2)])
  have first: "rows (surviving df)
          = filter (\<lambda>r. NA \<notin> set r) (nths (rows df) {i. rows df ! i \<notin> set (take i (rows df))})"
    by (simp add: rows_surviving kept_from_nths)
  have cells: "\<forall>k<length (rows w). \<forall>(c, x)\<in>set (zip (columns w) (rows w ! k)).
           c \<notin> {''TransactionDate'', ''PaymentMethod'', ''ProductCategory''} \<longrightarrow>
           (\<exists>c0. new_name c0 = c \<and> (c0, x) \<in> set (zip (columns df) (rows (surviving df) ! k)))"
  proof (intro allI impI ballI)
    fix k cx assume k: "k < length (rows w)" and cx: "cx \<in> set (zip (columns w) (rows w ! k))"
    obtain c x where [simp]: "cx = (c, x)" by (cases cx)
    show "case cx of (c, x) \<Rightarrow>
            c \<notin> {''TransactionDate'', ''PaymentMethod'', ''ProductCategory''} \<longrightarrow>
            (\<exists>c0. new_name c0 = c \<and> (c0, x) \<in> set (zip (columns df) (rows (surviving df) ! k)))"
    proof (simp only: \<open>cx = (c, x)\<close> prod.case, rule impI)
      assume c: "c \<notin> {''TransactionDate'', ''PaymentMethod'', ''ProductCategory''}"
      then have c1: "c \<noteq> ''TransactionDate''" by simp
      from k len have k': "k < length (rows (surviving df))" by simp
      from cx have cx': "(c, x) \<in> set (zip (columns w) (rows w ! k))" by simp
      from transform_cells[OF t assms(2) k' cx' c1] c
      show "\<exists>c0. new_name c0 = c \<and> (c0, x) \<in> set (zip (columns df) (rows (surviving df) ! k))"
        by blast
    qed
  qed
  show ?thesis
  proof (intro exI[of _ w] conjI)
    show "fs' output_path = Some (CsvFile w)" by (rule w)
    show "length (rows w) = length (rows (surviving df))" by (rule len)
    show "distinct (rows (surviving df))" by (rule distinct_rows_surviving)
    show "rows (surviving df)
          = filter (\<lambda>r. NA \<notin> set r) (nths (rows df) {i. rows df ! i \<notin> set (take i (rows df))})"
      by (rule first)
    show "\<forall>k<length (rows w). \<forall>(c, x)\<in>set (zip (columns w) (rows w ! k)).
           c \<notin> {''TransactionDate'', ''PaymentMethod'', ''ProductCategory''} \<longrightarrow>
           (\<exists>c0. new_name c0 = c \<and> (c0, x) \<in> set (zip (columns df) (rows (surviving df) ! k)))"
      by (rule cells)
  qed
qed

theorem written_rows_first_occurrences_witness:
  "read_csv sample_fs [''raw.csv''] = Inr sample_table \<and> well_formed sample_table \<and>
   preprocess_transaction_data sample_env sample_fs [''raw.csv''] [''output'', ''clean.csv''] False
     = (Inr [''output'', ''clean.csv''], sample_fs_after, progress False [''raw.csv''] sample_table) \<and>
   (\<exists>written. sample_fs_after [''output'', ''clean.csv''] = Some (CsvFile written)
     \<and> length (rows written) = length (rows (surviving sample_table))
     \<and> distinct (rows (surviving sample_table))
     \<and> rows (surviving sample_table)
          = filter (\<lambda>r. NA \<notin> set r)
              (nths (rows sample_table) {i. rows sample_table ! i \<notin> set (take i (rows sample_table))})
     \<and> (\<forall>k<length (rows written). \<forall>(c, x)\<in>set (zip (columns written) (rows written ! k)).
           c \<notin> {''TransactionDate'', ''PaymentMethod'', ''ProductCategory''} \<longrightarrow>
           (\<exists>c0. new_name c0 = c
              \<and> (c0, x) \<in> set (zip (columns sample_table) (rows (surviving sample_table) ! k)))))"
  using written_rows_first_occurrences[OF sample_read sample_well_formed sample_run[of False]]
    sample_read sample_well_formed sample_run[of False]
  by simp



text \<open>
  C10. For PaymentMethod and for ProductCategory, when the column of the surviving rows
  holds the strings \<open>labels\<close> and the call completes: each written value is the number of
  different labels that are smaller than the row's label in the lexicographic order, so
  the code of a label is its rank among the sorted different labels, whatever the order
  of the rows; and the codes written are exactly the numbers from 0 up to the number of
  different labels less one.
\<close>

theorem codes_are_sorted_ranks:
  assumes "read_csv fs input_path = Inr df" and "well_formed df"
    and "preprocess_transaction_data env fs input_path output_path verbose = (Inr p, fs', out)"
    and "n = ''PaymentMethod'' \<or> n = ''ProductCategory''"
    and "n \<in> set (columns df)"
    and "get_column (surviving df) n = map Str labels"
  shows "\<exists>written. fs' output_path = Some (CsvFile written)
     \<and> get_column written n = map (\<lambda>s. Num (of_nat (card {x \<in> set labels. x < s}))) labels
     \<and> set (get_column written n) = (\<lambda>m. Num (of_nat m)) ` {0..<card (set labels)}"
proof -
  from run_success[OF assms(3,1)] obtain w where
    t: "transform env df = Inr w" and w: "fs' output_path = Some (CsvFile w)" by blast
  from transform_encoded[OF t assms(2,4,5)] have
    "fit_transform (get_column (surviving df) n) = Inr (get_column w n)" by simp
  then have codes: "get_column w n = map (\<lambda>s. Num (of_nat (card {x \<in> set labels. x < s}))) labels"
    by (simp add: assms(6) fit_transform_strings)
  have "set (get_column w n)
          = (\<lambda>m. Num (of_nat m)) ` ((\<lambda>s. card {x \<in> set labels. x < s}) ` set labels)"
    unfolding codes by (simp add: image_image)
  then have range: "set (get_column w n) = (\<lambda>m. Num (of_nat m)) ` {0..<card (set labels)}"
    by (simp only: rank_image)
  show ?thesis
    by (intro exI[of _ w] conjI) (rule w codes range)+
qed

theorem codes_are_sorted_ranks_witness:
  "read_csv sample_fs [''raw.csv''] = Inr sample_table \<and> well_formed sample_table \<and>
   preprocess_transaction_data sample_env sample_fs [''raw.csv''] [''output'', ''clean.csv''] True
     = (Inr [''output'', ''clean.csv''], sample_fs_after, progress True [''raw.csv''] sample_table) \<and>
   ''PaymentMethod'' \<in> set (columns sample_table) \<and>
   get_column (surviving sample_table) ''PaymentMethod'' = map Str [''Cash'', ''Card'', ''Cash''] \<and>
   (\<exists>written. sample_fs_after [''output'', ''clean.csv''] = Some (CsvFile written)
     \<and> get_column written ''PaymentMethod''
          = map (\<lambda>s. Num (of_nat (card {x \<in> set [''Cash'', ''Card'', ''Cash'']. x < s})))
              [''Cash'', ''Card'', ''Cash'']
     \<and> set (get_column written ''PaymentMethod'')
          = (\<lambda>m. Num (of_nat m)) ` {0..<card (set [''Cash'', ''Card'', ''Cash''])})"
proof -
  have h: "''PaymentMethod'' \<in> set (columns sample_table)"
    by (simp add: sample_table_def)
  have g: "get_column (surviving sample_table) ''PaymentMethod'' = map Str [''Cash'', ''Card'', ''Cash'']"
    by code_simp
  from codes_are_sorted_ranks[OF sample_read sample_well_formed sample_run[of True] _ h g]
    sample_read sample_well_formed sample_run[of True] h g
  show ?thesis by simp
qed

lemma new_name_not_old: "new_name c \<noteq> ''DiscountApplied(%)''"
  by (simp add: new_name_def)

text \<open>
  C4. Whenever a call completes, no column of the written table is named
  DiscountApplied(%). When the loaded table has that column, the written table has a
  column named DiscountApplied whose values are, row by row, the values of
  DiscountApplied(%) in the surviving rows. When the loaded table does not have it, the
  written column names are the loaded ones less the dropped columns; and on any table
  without the column the rename step returns the table as it is.
\<close>

theorem discount_column_renamed:
  assumes "read_csv fs input_path = Inr df" and "well_formed df"
    and "preprocess_transaction_data env fs input_path output_path verbose = (Inr p, fs', out)"
  shows "\<exists>written. fs' output_path = Some (CsvFile written)
     \<and> ''DiscountApplied(%)'' \<notin> set (columns written)
     \<and> (''DiscountApplied(%)'' \<in> set (columns df) \<longrightarrow>
          (\<exists>j<length (columns written). columns written ! j = ''DiscountApplied''
             \<and> column_at written j = get_column (surviving df) ''DiscountApplied(%)''))
     \<and> (''DiscountApplied(%)'' \<notin> set (columns df) \<longrightarrow>
          columns written = filter kept (columns df))
     \<and> (\<forall>t. ''DiscountApplied(%)'' \<notin> set (columns t) \<longrightarrow> rename_columns t = t)"
proof -
  from run_success[OF assms(3,1)] obtain w where
    t: "transform env df = Inr w" and w: "fs' output_path = Some (CsvFile w)" by blast
  have cols: "columns w = filter kept (map new_name (columns df))"
    by (rule transform_columns[OF t assms(2)])
  have gone: "''DiscountApplied(%)'' \<notin> set (columns w)"
  proof
    assume "''DiscountApplied(%)'' \<in> set (columns w)"
    then obtain c where "new_name c = ''DiscountApplied(%)''"
      unfolding cols by auto
    then show False by (simp add: new_name_not_old)
  qed
  have present: "''DiscountApplied(%)'' \<in> set (columns df) \<longrightarrow>
          (\<exists>j<length (columns w). columns w ! j = ''DiscountApplied''
             \<and> column_at w j = get_column (surviving df) ''DiscountApplied(%)'')"
  proof
    assume d: "''DiscountApplied(%)'' \<in> set (columns df)"
    define i where "i = index_of ''DiscountApplied(%)'' (columns df)"
    have i: "i < length (columns df)" "columns df ! i = ''DiscountApplied(%)''"
      using d by (simp_all add: i_def index_of_less nth_index_of)
    have n: "new_name (columns df ! i) = ''DiscountApplied''"
      by (simp add: i(2) new_name_def)
    have "\<exists>j<length (columns w). columns w ! j = new_name (columns df ! i)
            \<and> column_at w j = column_at (surviving df) i"
      by (rule transform_column_carried[OF t assms(2) i(1)])
         (simp_all add: i(2) new_name_def kept_def cols_to_drop_def)
    then show "\<exists>j<length (columns w). columns w ! j = ''DiscountApplied''
             \<and> column_at w j = get_column (surviving df) ''DiscountApplied(%)''"
      unfolding n by (simp add: get_column_at columns_surviving i_def)
  qed
  have absent: "''DiscountApplied(%)'' \<notin> set (columns df) \<longrightarrow>
          columns w = filter kept (columns df)"
  proof
    assume "''DiscountApplied(%)'' \<notin> set (columns df)"
    then have "map new_name (columns df) = columns df"
      by (intro map_idI) (auto simp: new_name_def)
    then show "columns w = filter kept (columns df)" by (simp add: cols)
  qed
  have stage: "\<forall>t. ''DiscountApplied(%)'' \<notin> set (columns t) \<longrightarrow> rename_columns t = t"
    by (simp add: rename_absent)
  show ?thesis
    by (intro exI[of _ w] conjI) (rule w gone present absent stage)+
qed

theorem discount_column_renamed_witness:
  "read_csv sample_fs [''raw.csv''] = Inr sample_table \<and> well_formed sample_table \<and>
   preprocess_transaction_data sample_env sample_fs [''raw.csv''] [''output'', ''clean.csv''] True
     = (Inr [''output'', ''clean.csv''], sample_fs_after, progress True [''raw.csv''] sample_table) \<and>
   ''DiscountApplied(%)'' \<in> set (columns sample_table) \<and>
   (\<exists>written. sample_fs_after [''output'', ''clean.csv''] = Some (CsvFile written)
     \<and> ''DiscountApplied(%)'' \<notin> set (columns written)
     \<and> (\<exists>j<length (columns written). columns written ! j = ''DiscountApplied''
             \<and> column_at written j = get_column (surviving sample_table) ''DiscountApplied(%)''))"
proof -
  have h: "''DiscountApplied(%)'' \<in> set (columns sample_table)"
    by (simp add: sample_table_def)
  from discount_column_renamed[OF sample_read sample_well_formed sample_run[of True]]
  obtain written where
    "sample_fs_after [''output'', ''clean.csv''] = Some (CsvFile written)"
    "''DiscountApplied(%)'' \<notin> set (columns written)"
    "''DiscountApplied(%)'' \<in> set (columns sample_table) \<longrightarrow>
       (\<exists>j<length (columns written). columns written ! j = ''DiscountApplied''
          \<and> column_at written j = get_column (surviving sample_table) ''DiscountApplied(%)'')"
    by blast
  with h sample_read sample_well_formed sample_run[of True] show ?thesis by blast
qed

text \<open>
  C5. Whenever a call completes, the written table has no column named StoreLocation or
  ProductID, whatever their values were, and its column names are the loaded names after
  the rename, less exactly these two. The drop step raises on no table, whether it holds
  both columns, one, or none.
\<close>

theorem unneeded_columns_dropped:
  assumes "read_csv fs input_path = Inr df" and "well_formed df"
    and "preprocess_transaction_data env fs input_path output_path verbose = (Inr p, fs', out)"
  shows "\<exists>written. fs' output_path = Some (CsvFile written)
     \<and> ''StoreLocation'' \<notin> set (columns written)
     \<and> ''ProductID'' \<notin> set (columns written)
     \<and> columns written
          = filter (\<lambda>c. c \<noteq> ''StoreLocation'' \<and> c \<noteq> ''ProductID'') (map new_name (columns df))
     \<and> (\<forall>t. \<exists>t'. drop_unneeded t = Inr t')"
proof -
  from run_success[OF assms(3,1)] obtain w where
    t: "transform env df = Inr w" and w: "fs' output_path = Some (CsvFile w)" by blast
  have k: "kept = (\<lambda>c. c \<noteq> ''StoreLocation'' \<and> c \<noteq> ''ProductID'')"
    by (rule ext) (simp add: kept_def cols_to_drop_def)
  have cols: "columns w
          = filter (\<lambda>c. c \<noteq> ''StoreLocation'' \<and> c \<noteq> ''ProductID'') (map new_name (columns df))"
    using transform_columns[OF t assms(2)] by (simp only: k)
  have sl: "''StoreLocation'' \<notin> set (columns w)" unfolding cols by simp
  have pid: "''ProductID'' \<notin> set (columns w)" unfolding cols by simp
  have total: "\<forall>t. \<exists>t'. drop_unneeded t = Inr t'"
    by (simp add: drop_unneeded_total)
  show ?thesis
    by (intro exI[of _ w] conjI) (rule w sl pid cols total)+
qed

theorem unneeded_columns_dropped_witness:
  "read_csv sample_fs [''raw.csv''] = Inr sample_table \<and> well_formed sample_table \<and>
   preprocess_transaction_data sample_env sample_fs [''raw.csv''] [''output'', ''clean.csv''] False
     = (Inr [''output'', ''clean.csv''], sample_fs_after, progress False [''raw.csv''] sample_table) \<and>
   ''StoreLocation'' \<in> set (columns sample_table) \<and> ''ProductID'' \<in> set (columns sample_table) \<and>
   (\<exists>written. sample_fs_after [''output'', ''clean.csv''] = Some (CsvFile written)
     \<and> ''StoreLocation'' \<notin> set (columns written)
     \<and> ''ProductID'' \<notin> set (columns written)
     \<and> columns written
          = filter (\<lambda>c. c \<noteq> ''StoreLocation'' \<and> c \<noteq> ''ProductID'')
              (map new_name (columns sample_table)))"
proof -
  have h: "''StoreLocation'' \<in> set (columns sample_table)" "''ProductID'' \<in> set (columns sample_table)"
    by (simp_all add: sample_table_def)
  from unneeded_columns_dropped[OF sample_read sample_well_formed sample_run[of False]]
  obtain written where
    "sample_fs_after [''output'', ''clean.csv''] = Some (CsvFile written)"
    "''StoreLocation'' \<notin> set (columns written)"
    "''ProductID'' \<notin> set (columns written)"
    "columns written
       = filter (\<lambda>c. c \<noteq> ''StoreLocation'' \<and> c \<noteq> ''ProductID'') (map new_name (columns sample_table))"
    by blast
  with h sample_read sample_well_formed sample_run[of False] show ?thesis by blast
qed















end
